theory Spec2Isabelle
  imports Complex_Main "HOL-Library.AList"
begin

section \<open>The adaptive polling client (message-polling.js)\<close>

text \<open>
  The module-level variables of message-polling.js form one record. Times are the
  integer milliseconds of \<open>Date.now()\<close>; the polling interval is a rational number of
  milliseconds, so that the factor 1.2 of the dampening rule is exact.

  \<open>messagePollingInterval\<close> is the timer handle: \<open>None\<close> is \<open>null\<close>, \<open>Some d\<close> is
  the handle of a \<open>setTimeout\<close> armed with delay \<open>d\<close>. The last four fields are not
  variables of the script; they record what the browser holds for it:
  whether the timer behind the handle is still waiting to fire, how many fired timers have
  queued their inner callback (\<open>requestIdleCallback\<close> or \<open>setTimeout(.., 0)\<close>) that has
  not run yet, how many fetches await their response, and how many fetches were ever issued.
\<close>

record poller =
  messagePollingInterval :: "rat option"
  lastMessageCount :: nat
  currentSessionId :: "string option"
  lastActivity :: int
  currentPollingInterval :: rat
  consecutiveEmptyPolls :: nat
  isVoiceActive :: bool
  isChatActive :: bool
  isPaused :: bool
  timerPending :: bool
  queuedTicks :: nat
  inFlight :: nat
  fetchesIssued :: nat

text \<open>The values of the variables when the script has been loaded at time \<open>t0\<close>.\<close>

definition initialPoller :: "int \<Rightarrow> poller" where
  "initialPoller t0 =
     \<lparr> messagePollingInterval = None, lastMessageCount = 0, currentSessionId = None,
       lastActivity = t0, currentPollingInterval = 15000, consecutiveEmptyPolls = 0,
       isVoiceActive = False, isChatActive = False, isPaused = False,
       timerPending = False, queuedTicks = 0, inFlight = 0, fetchesIssued = 0 \<rparr>"

text \<open>\<open>stopMessagePolling\<close>: clear the timer if the handle is set.\<close>

definition stopMessagePolling :: "poller \<Rightarrow> poller" where
  "stopMessagePolling p =
     (if messagePollingInterval p \<noteq> None
      then p\<lparr>messagePollingInterval := None, timerPending := False\<rparr>
      else p)"

text \<open>
  \<open>startMessagePolling\<close>: the body returns right after \<open>stopMessagePolling()\<close>; the
  statements behind the \<open>return\<close> never run.
\<close>

definition startMessagePolling :: "string \<Rightarrow> poller \<Rightarrow> poller" where
  "startMessagePolling sessionId p = stopMessagePolling p"

text \<open>
  \<open>scheduleNextPoll\<close>: clear the timer behind the handle and arm a new one with the
  current interval. What the timer does when it fires is \<open>timerFires\<close> and \<open>idleTick\<close>
  below.
\<close>

definition scheduleNextPoll :: "poller \<Rightarrow> poller" where
  "scheduleNextPoll p =
     p\<lparr>messagePollingInterval := Some (currentPollingInterval p), timerPending := True\<rparr>"

text \<open>
  \<open>markUserActivity\<close> at time \<open>now\<close>. The resumed poll is scheduled before the interval
  is set to 8000, as in the source. The five-minute timer that clears \<open>isChatActive\<close> is
  the function \<open>chatActivityTimeout\<close>.
\<close>

definition markUserActivity :: "int \<Rightarrow> poller \<Rightarrow> poller" where
  "markUserActivity now p =
     (let p1 = p\<lparr>lastActivity := now, consecutiveEmptyPolls := 0, isChatActive := True\<rparr>;
          p2 = (if isPaused p1 then scheduleNextPoll (p1\<lparr>isPaused := False\<rparr>) else p1)
      in p2\<lparr>currentPollingInterval := 8000\<rparr>)"

definition chatActivityTimeout :: "poller \<Rightarrow> poller" where
  "chatActivityTimeout p = p\<lparr>isChatActive := False\<rparr>"

definition setVoiceActive :: "bool \<Rightarrow> int \<Rightarrow> poller \<Rightarrow> poller" where
  "setVoiceActive active now p =
     (let p1 = p\<lparr>isVoiceActive := active\<rparr>
      in if active
         then (let p2 = p1\<lparr>lastActivity := now, consecutiveEmptyPolls := 0\<rparr>
               in if isPaused p2 then scheduleNextPoll (p2\<lparr>isPaused := False\<rparr>) else p2)
         else p1)"

definition pausePolling :: "poller \<Rightarrow> poller" where
  "pausePolling p =
     (if \<not> isPaused p \<and> messagePollingInterval p \<noteq> None
      then p\<lparr>messagePollingInterval := None, timerPending := False, isPaused := True\<rparr>
      else p)"

definition resumePolling :: "poller \<Rightarrow> poller" where
  "resumePolling p =
     (if isPaused p then scheduleNextPoll (p\<lparr>isPaused := False\<rparr>) else p)"

text \<open>
  The if / else-if chain of \<open>adjustPollingFrequency\<close> that picks the interval from the
  activity flags and the time since the last activity.
\<close>

definition activityTier :: "int \<Rightarrow> poller \<Rightarrow> rat" where
  "activityTier timeSinceActivity p =
     (if isVoiceActive p \<or> isChatActive p then 5000
      else if timeSinceActivity < 120000 then 8000
      else if timeSinceActivity < 600000 then 10000
      else 15000)"

text \<open>
  \<open>adjustPollingFrequency\<close> at time \<open>now\<close>: the idle test comes first and returns after
  \<open>pausePolling()\<close>; otherwise the tier is stored, and multiplied by 1.2 up to 20000
  when more than 25 polls in a row were empty.
\<close>

definition adjustPollingFrequency :: "int \<Rightarrow> poller \<Rightarrow> poller" where
  "adjustPollingFrequency now p =
     (let timeSinceActivity = now - lastActivity p
      in if \<not> isVoiceActive p \<and> \<not> isChatActive p \<and> timeSinceActivity > 600000
            \<and> consecutiveEmptyPolls p > 5
         then pausePolling p
         else (let p1 = p\<lparr>currentPollingInterval := activityTier timeSinceActivity p\<rparr>
               in if consecutiveEmptyPolls p1 > 25
                  then p1\<lparr>currentPollingInterval :=
                            min (currentPollingInterval p1 * (12 / 10)) 20000\<rparr>
                  else p1))"


section \<open>The chat transcript (chat functions and voice-functions.js)\<close>

text \<open>
  A transcript entry as the chat functions build it. The stored role is always
  \<open>'user'\<close> or \<open>'assistant'\<close>; the timestamp is the millisecond instant whose ISO
  string the source stores; \<open>isFinal\<close> is \<open>True\<close> where the object carries
  \<open>isFinal: true\<close> and \<open>False\<close> where it has no such property.
\<close>

datatype chat_role = User | Assistant

record message =
  role :: chat_role
  content :: string
  timestamp :: int
  source :: string
  isFinal :: bool

text \<open>
  The part of \<open>window\<close>, the DOM and local storage the chat functions use.
  \<open>localStorage\<close> holds the \<open>chatHistory_...\<close> items in the order in which
  \<open>Object.keys(localStorage)\<close> lists them (taken to be the order of first insertion);
  an item is the transcript whose JSON text is stored, together with the time of the
  \<open>setItem\<close> call that wrote it. The write time is not visible to the script; it is
  kept to be able to say which item was written last. \<open>storageFull\<close> says that
  \<open>setItem\<close> throws (quota exceeded). \<open>chatMessagesPresent\<close> says that the element
  with id \<open>chatMessages\<close> exists, \<open>chatFunctionsLoaded\<close> that the chat functions are
  defined on \<open>window\<close>, \<open>variableValuesPresent\<close> that
  \<open>VAPI_CONFIG.assistantOverrides.variableValues\<close> exists. \<open>engineSort\<close> is the
  order in which the engine's \<open>sort\<close> returns a list of keys in the cases ECMAScript
  leaves to the engine. The HTML built for the chat surface is left out.
\<close>

record chat =
  chatHistory :: "message list option"
  localStorage :: "(string \<times> int \<times> message list) list"
  storageFull :: bool
  chatMessagesPresent :: bool
  chatFunctionsLoaded :: bool
  BROWSER_SESSION_ID :: "string option"
  configBrowserSessionId :: "string option"
  variableValuesPresent :: bool
  conversation_context :: "string option"
  processedTranscripts :: "string list"
  vapiSessionId :: "string option"
  engineSort :: "string list \<Rightarrow> string list"

text \<open>JavaScript truthiness of a value that is a string or undefined, and \<open>v || d\<close>.\<close>

definition truthy :: "string option \<Rightarrow> bool" where
  "truthy v = (case v of None \<Rightarrow> False | Some s \<Rightarrow> s \<noteq> [])"

definition orElse :: "string option \<Rightarrow> string \<Rightarrow> string" where
  "orElse v d = (case v of None \<Rightarrow> d | Some s \<Rightarrow> if s = [] then d else s)"

text \<open>\<open>xs.slice(-n)\<close>: the last \<open>n\<close> elements, all of them if there are fewer.\<close>

definition sliceLast :: "nat \<Rightarrow> 'a list \<Rightarrow> 'a list" where
  "sliceLast n xs = drop (length xs - n) xs"

definition startsWith :: "string \<Rightarrow> string \<Rightarrow> bool" where
  "startsWith s p = (take (length p) s = p)"

text \<open>\<open>s.split(sep)\<close> for a one-character separator.\<close>

fun splitOn :: "char \<Rightarrow> string \<Rightarrow> string list" where
  "splitOn sep [] = [] # []"
| "splitOn sep (c # cs) =
     (if c = sep then [] # splitOn sep cs
      else (case splitOn sep cs of
              [] \<Rightarrow> [c] # []
            | piece # pieces \<Rightarrow> (c # piece) # pieces))"

text \<open>
  White space as \<open>trim\<close> and \<open>parseInt\<close> skip it, for the characters below 256:
  tab, line feed, vertical tab, form feed, carriage return, space, no-break space.
\<close>

definition isWhiteSpace :: "char \<Rightarrow> bool" where
  "isWhiteSpace c = (of_char c \<in> {9, 10, 11, 12, 13, 32, 160 :: nat})"

definition trim :: "string \<Rightarrow> string" where
  "trim s = rev (dropWhile isWhiteSpace (rev (dropWhile isWhiteSpace s)))"

text \<open>
  A JavaScript number as far as \<open>parseInt\<close> and the subtraction of two of its results
  can produce it: \<open>NaN\<close>, a finite double with an integer value (\<open>-0\<close> is not told
  from \<open>0\<close>), or an infinity.
\<close>

datatype number = NaN | Num int | PlusInfinity | MinusInfinity

text \<open>The number of binary digits of a natural number.\<close>

fun bitLength :: "nat \<Rightarrow> nat" where
  "bitLength n = (if n = 0 then 0 else Suc (bitLength (n div 2)))"

declare bitLength.simps [simp del]

text \<open>
  The double nearest to an integer, ties to the even significand: integers below
  \<open>2^53\<close> are doubles; a longer one keeps its 53 leading binary digits, rounded by
  the rest; from \<open>2^1024\<close> on the result is an infinity.
\<close>

definition roundToDouble :: "int \<Rightarrow> number" where
  "roundToDouble n =
     (let m = nat \<bar>n\<bar>
      in if m < 2 ^ 53 then Num n
         else
           (let e = bitLength m - 53;
                q = m div 2 ^ e;
                r = m mod 2 ^ e;
                q' = (if 2 * r > 2 ^ e \<or> (2 * r = 2 ^ e \<and> odd q) then q + 1 else q);
                v = q' * 2 ^ e
            in if v \<ge> 2 ^ 1024 then (if n < 0 then MinusInfinity else PlusInfinity)
               else Num (if n < 0 then - int v else int v)))"

text \<open>
  \<open>parseInt(s)\<close> without a radix argument: leading white space, an optional sign, an
  optional \<open>0x\<close> prefix, then the longest run of digits; without a digit the result is
  \<open>NaN\<close>, otherwise the double nearest to the integer the digits denote.
  \<open>parsePrefix\<close> gives the sign, the radix and the run of digits.
\<close>

definition digitValue :: "nat \<Rightarrow> char \<Rightarrow> nat option" where
  "digitValue radix c =
     (let n = (of_char c :: nat);
          v = (if 48 \<le> n \<and> n \<le> 57 then Some (n - 48)
               else if 97 \<le> n \<and> n \<le> 102 then Some (n - 87)
               else if 65 \<le> n \<and> n \<le> 70 then Some (n - 55)
               else None)
      in case v of None \<Rightarrow> None | Some d \<Rightarrow> if d < radix then Some d else None)"

definition digitsValue :: "nat \<Rightarrow> string \<Rightarrow> nat" where
  "digitsValue radix ds =
     foldl (\<lambda>acc c. acc * radix + (case digitValue radix c of None \<Rightarrow> 0 | Some d \<Rightarrow> d)) 0 ds"

definition parsePrefix :: "string \<Rightarrow> bool \<times> nat \<times> string" where
  "parsePrefix s =
     (let s1 = dropWhile isWhiteSpace s;
          negative = (case s1 of c # _ \<Rightarrow> c = CHR ''-'' | [] \<Rightarrow> False);
          s2 = (case s1 of c # r \<Rightarrow> if c = CHR ''-'' \<or> c = CHR ''+'' then r else s1 | [] \<Rightarrow> s1);
          hex = (case s2 of c # x # _ \<Rightarrow> c = CHR ''0'' \<and> (x = CHR ''x'' \<or> x = CHR ''X'')
                          | _ \<Rightarrow> False);
          radix = (if hex then 16 else 10);
          s3 = (if hex then drop 2 s2 else s2)
      in (negative, radix, takeWhile (\<lambda>c. digitValue radix c \<noteq> None) s3))"

definition parseInt :: "string \<Rightarrow> number" where
  "parseInt s =
     (case parsePrefix s of
        (negative, radix, ds) \<Rightarrow>
          if ds = [] then NaN
          else roundToDouble (if negative then - int (digitsValue radix ds)
                              else int (digitsValue radix ds)))"

text \<open>
  For a decimal numeral of more than 20 significant digits ECMAScript allows the engine
  to read the digits after the 20th as zeros, so the value of \<open>parseInt\<close> is the
  engine's choice there.
\<close>

definition manyDigits :: "string \<Rightarrow> bool" where
  "manyDigits s =
     (case parsePrefix s of
        (negative, radix, ds) \<Rightarrow>
          radix = 10 \<and> length (dropWhile (\<lambda>c. c = CHR ''0'') ds) > 20)"

text \<open>
  The difference of two such numbers as the double subtraction gives it: the exact
  difference rounded to a double; \<open>NaN\<close> for the difference of equal infinities or when
  an operand is \<open>NaN\<close>.
\<close>

fun subtract :: "number \<Rightarrow> number \<Rightarrow> number" where
  "subtract NaN y = NaN"
| "subtract x NaN = NaN"
| "subtract (Num a) (Num b) = roundToDouble (a - b)"
| "subtract (Num a) PlusInfinity = MinusInfinity"
| "subtract (Num a) MinusInfinity = PlusInfinity"
| "subtract PlusInfinity (Num b) = PlusInfinity"
| "subtract PlusInfinity PlusInfinity = NaN"
| "subtract PlusInfinity MinusInfinity = PlusInfinity"
| "subtract MinusInfinity (Num b) = MinusInfinity"
| "subtract MinusInfinity PlusInfinity = MinusInfinity"
| "subtract MinusInfinity MinusInfinity = NaN"

text \<open>
  What \<open>sort\<close> makes of the value its comparator returns: \<open>NaN\<close> counts as 0, and only
  the sign matters.
\<close>

fun comparatorSign :: "number \<Rightarrow> int" where
  "comparatorSign NaN = 0"
| "comparatorSign (Num v) = sgn v"
| "comparatorSign PlusInfinity = 1"
| "comparatorSign MinusInfinity = - 1"

text \<open>
  \<open>xs.sort(cmp)\<close> for a consistent comparator is the stable sort, here by insertion: an
  element stays in front of the later elements it compares equal to.
\<close>

fun insertBy :: "('a \<Rightarrow> 'a \<Rightarrow> number) \<Rightarrow> 'a \<Rightarrow> 'a list \<Rightarrow> 'a list" where
  "insertBy cmp x [] = [x]"
| "insertBy cmp x (y # ys) =
     (if comparatorSign (cmp x y) \<le> 0 then x # y # ys else y # insertBy cmp x ys)"

definition sortBy :: "('a \<Rightarrow> 'a \<Rightarrow> number) \<Rightarrow> 'a list \<Rightarrow> 'a list" where
  "sortBy cmp xs = foldr (insertBy cmp) xs []"

text \<open>
  The comparator of \<open>loadChatHistoryFromStorage\<close>: \<open>key.split('_')[1] || '0'\<close>, parsed
  with \<open>parseInt\<close>, the second key's number minus the first's.
\<close>

definition stampField :: "string \<Rightarrow> string" where
  "stampField key =
     (case splitOn CHR ''_'' key of
        _ # f # _ \<Rightarrow> if f = [] then ''0'' else f
      | _ \<Rightarrow> ''0'')"

definition compareKeys :: "string \<Rightarrow> string \<Rightarrow> number" where
  "compareKeys a b =
     (let timestampA = stampField a; timestampB = stampField b
      in subtract (parseInt timestampB) (parseInt timestampA))"

text \<open>
  Where ECMAScript leaves the sorted order to the engine: a field of more than 20
  significant digits, or a comparator that is not consistent on the keys. This comparator
  is consistent exactly when no field is \<open>NaN\<close> or all keys compare equal.
\<close>

definition engineDecides :: "string list \<Rightarrow> bool" where
  "engineDecides keys =
     (list_ex (\<lambda>key. manyDigits (stampField key)) keys
      \<or> (list_ex (\<lambda>key. parseInt (stampField key) = NaN) keys
          \<and> list_ex (\<lambda>a. list_ex (\<lambda>b. comparatorSign (compareKeys a b) \<noteq> 0) keys) keys))"

definition storageKey :: "chat \<Rightarrow> string" where
  "storageKey c = ''chatHistory_'' @ orElse (BROWSER_SESSION_ID c) ''default''"

definition getItem :: "string \<Rightarrow> chat \<Rightarrow> message list option" where
  "getItem key c = map_option snd (map_of (localStorage c) key)"

text \<open>
  \<open>saveChatHistoryToStorage\<close>: the \<open>setItem\<close> sits in a try block whose catch only
  logs, so a full storage leaves the item as it was.
\<close>

definition saveChatHistoryToStorage :: "int \<Rightarrow> message list \<Rightarrow> chat \<Rightarrow> chat" where
  "saveChatHistoryToStorage now h c =
     (if storageFull c then c
      else c\<lparr>localStorage := AList.update (storageKey c) (now, h) (localStorage c)\<rparr>)"

text \<open>
  \<open>loadChatHistoryFromStorage\<close> returns the transcript and may copy the adopted one
  under the current key. When that \<open>setItem\<close> throws, the catch of the function returns
  the empty transcript.
\<close>

definition loadChatHistoryFromStorage :: "int \<Rightarrow> chat \<Rightarrow> message list \<times> chat" where
  "loadChatHistoryFromStorage now c =
     (case getItem (storageKey c) c of
        Some h \<Rightarrow> (h, c)
      | None \<Rightarrow>
          (let allKeys = map fst (localStorage c);
               chatHistoryKeys = filter (\<lambda>key. startsWith key ''chatHistory_'') allKeys;
               sortedKeys = (if length chatHistoryKeys > 1 \<and> engineDecides chatHistoryKeys
                             then engineSort c chatHistoryKeys
                             else sortBy compareKeys chatHistoryKeys)
           in case sortedKeys of
                [] \<Rightarrow> ([], c)
              | latestKey # _ \<Rightarrow>
                  (case getItem latestKey c of
                     None \<Rightarrow> ([], c)
                   | Some h \<Rightarrow>
                       if truthy (BROWSER_SESSION_ID c)
                       then (if storageFull c then ([], c)
                             else (h, c\<lparr>localStorage :=
                                          AList.update (''chatHistory_'' @ orElse (BROWSER_SESSION_ID c) [])
                                            (now, h) (localStorage c)\<rparr>))
                       else (h, c))))"

text \<open>
  The conversation context both \<open>updateConversationContext\<close> and \<open>startVoiceCall\<close>
  compute from a transcript: one line per entry of the last 30, joined by line feeds, and
  the placeholder when that text is empty.
\<close>

definition contextLine :: "message \<Rightarrow> string" where
  "contextLine msg = (if role msg = User then ''User'' else ''Assistant'') @ '': '' @ content msg"

fun joinLines :: "string list \<Rightarrow> string" where
  "joinLines [] = []"
| "joinLines [l] = l"
| "joinLines (l # m # ls) = l @ [CHR 0x0A] @ joinLines (m # ls)"

definition conversationContext :: "message list option \<Rightarrow> string" where
  "conversationContext history =
     (let chatHistory = sliceLast 30 (case history of None \<Rightarrow> [] | Some h \<Rightarrow> h);
          conversationContext = joinLines (map contextLine chatHistory)
      in if conversationContext = [] then ''Keine vorherigen Nachrichten'' else conversationContext)"

definition updateConversationContext :: "chat \<Rightarrow> chat" where
  "updateConversationContext c =
     (if \<not> variableValuesPresent c then c
      else c\<lparr>conversation_context := Some (conversationContext (chatHistory c))\<rparr>)"

text \<open>The \<open>conversation_context\<close> override that \<open>startVoiceCall\<close> passes to the SDK.\<close>

definition startVoiceCall_context :: "chat \<Rightarrow> string" where
  "startVoiceCall_context c = conversationContext (chatHistory c)"

definition initializeChatHistory :: "int \<Rightarrow> chat \<Rightarrow> chat" where
  "initializeChatHistory now c =
     updateConversationContext
       (case chatHistory c of
          None \<Rightarrow> (let (h, c1) = loadChatHistoryFromStorage now c in c1\<lparr>chatHistory := Some h\<rparr>)
        | Some _ \<Rightarrow> c)"

text \<open>\<open>addChatMessageWithSource(message, sender, source)\<close> at time \<open>now\<close>.\<close>

definition addChatMessageWithSource :: "int \<Rightarrow> string \<Rightarrow> string \<Rightarrow> string \<Rightarrow> chat \<Rightarrow> chat" where
  "addChatMessageWithSource now msg sender src c =
     (if \<not> chatMessagesPresent c then c
      else
        (let (h0, c1) = (case chatHistory c of
                           None \<Rightarrow> loadChatHistoryFromStorage now c
                         | Some h \<Rightarrow> (h, c));
             newMessage = \<lparr> role = (if sender = ''user'' then User else Assistant),
                            content = msg, timestamp = now, source = src, isFinal = False \<rparr>;
             h1 = h0 @ [newMessage];
             h2 = (if length h1 > 30 then sliceLast 30 h1 else h1)
         in updateConversationContext
              (saveChatHistoryToStorage now h2 (c1\<lparr>chatHistory := Some h2\<rparr>))))"

definition addChatMessage :: "int \<Rightarrow> string \<Rightarrow> string \<Rightarrow> chat \<Rightarrow> chat" where
  "addChatMessage now msg sender c = addChatMessageWithSource now msg sender ''chat'' c"

text \<open>
  A transcript message of the voice SDK as \<open>handleVoiceTranscript\<close> reads it. An empty
  string stands for a property that is missing or falsy; a missing message object behaves
  like one with an empty role.
\<close>

record voice_message =
  vrole :: string
  transcript :: string
  vsessionId :: string

text \<open>
  The duplicate test over \<open>window.processedTranscripts\<close> (a \<open>Set\<close>, kept in insertion
  order): \<open>id.split('-', 2)\<close> yields at most the first two pieces of the split, and the
  destructured \<open>content\<close> is undefined when there is only one.
\<close>

definition recentlyProcessed :: "voice_message \<Rightarrow> string list \<Rightarrow> bool" where
  "recentlyProcessed m ids =
     list_ex (\<lambda>id. case take 2 (splitOn CHR ''-'' id) of
                     [r, c] \<Rightarrow> r = vrole m \<and> c = trim (transcript m)
                   | _ \<Rightarrow> False) ids"

definition setAdd :: "'a \<Rightarrow> 'a list \<Rightarrow> 'a list" where
  "setAdd x xs = (if x \<in> set xs then xs else xs @ [x])"

text \<open>
  \<open>handleVoiceTranscript(message)\<close> at time \<open>now\<close>. The timer that deletes the key
  after 10000 ms is \<open>expireProcessedTranscript\<close>. \<open>handleVoiceResponseActions\<close> only
  logs. The chat functions are defined by one script, so \<open>chatFunctionsLoaded\<close> decides
  every test for one of them.
\<close>

definition handleVoiceTranscript :: "int \<Rightarrow> voice_message \<Rightarrow> chat \<Rightarrow> chat" where
  "handleVoiceTranscript now m c =
     (if transcript m = [] \<or> vrole m = [] then c
      else
        (let transcriptContent = vrole m @ ''-'' @ trim (transcript m)
         in if recentlyProcessed m (processedTranscripts c) then c
            else
              (let c1 = c\<lparr>processedTranscripts := setAdd transcriptContent (processedTranscripts c)\<rparr>
               in if trim (transcript m) = [] then c1
                  else
                    (let chatMessage = \<lparr> role = (if vrole m = ''user'' then User else Assistant),
                                           content = transcript m, timestamp = now,
                                           source = ''voice'', isFinal = True \<rparr>;
                         (h0, c2) = (case chatHistory c1 of
                                       None \<Rightarrow> if chatFunctionsLoaded c1
                                               then loadChatHistoryFromStorage now c1
                                               else ([], c1)
                                     | Some h \<Rightarrow> (h, c1));
                         c3 = c2\<lparr>chatHistory := Some (h0 @ [chatMessage])\<rparr>;
                         c4 = (if chatFunctionsLoaded c3
                               then saveChatHistoryToStorage now (h0 @ [chatMessage]) c3
                               else c3);
                         c5 = (if chatFunctionsLoaded c4
                               then addChatMessageWithSource now (transcript m)
                                      (if vrole m = ''user'' then ''user'' else ''assistant'')
                                      ''voice'' c4
                               else c4)
                     in if vsessionId m \<noteq> [] then c5\<lparr>vapiSessionId := Some (vsessionId m)\<rparr>
                        else c5))))"

definition expireProcessedTranscript :: "string \<Rightarrow> chat \<Rightarrow> chat" where
  "expireProcessedTranscript transcriptContent c =
     c\<lparr>processedTranscripts := removeAll transcriptContent (processedTranscripts c)\<rparr>"

text \<open>
  An entry of the \<open>messages\<close> array of \<open>GET /api/messages/{sessionId}\<close>; an empty
  string stands for a missing or falsy property.
\<close>

record inbound =
  in_content :: string
  in_role :: string
  in_source :: string

text \<open>
  \<open>displayNewMessage(messageData)\<close>. Without the chat functions it only builds HTML,
  which is outside this model.
\<close>

definition displayNewMessage :: "int \<Rightarrow> inbound \<Rightarrow> chat \<Rightarrow> chat" where
  "displayNewMessage now messageData c =
     (let content = (if in_content messageData = [] then ''Keine Nachricht''
                     else in_content messageData);
          role = (if in_role messageData = [] then ''assistant'' else in_role messageData);
          source = (if in_source messageData = [] then ''voice-function''
                    else in_source messageData)
      in if chatFunctionsLoaded c then addChatMessageWithSource now content role source c
         else c)"

text \<open>
  What the awaited requests of \<open>checkForNewMessages\<close> deliver: a rejection of
  \<open>fetch\<close> or of \<open>response.json()\<close>, or a body with its \<open>success\<close> flag and its
  \<open>messages\<close> array (\<open>None\<close> when the property is missing).
\<close>

datatype fetch_result = FetchFailed | FetchData bool "inbound list option"

text \<open>
  \<open>checkForNewMessages\<close> runs up to its first \<open>await\<close>: without a session id it
  returns, otherwise the request is sent.
\<close>

definition checkForNewMessages_start :: "poller \<Rightarrow> poller" where
  "checkForNewMessages_start p =
     (if \<not> truthy (currentSessionId p) then p
      else p\<lparr>inFlight := inFlight p + 1, fetchesIssued := fetchesIssued p + 1\<rparr>)"

text \<open>
  The rest of \<open>checkForNewMessages\<close>, run at time \<open>now\<close> when the request has
  completed with result \<open>r\<close>: the try block, its catch, and the rescheduling behind them.
\<close>

definition checkForNewMessages_done ::
    "int \<Rightarrow> fetch_result \<Rightarrow> poller \<times> chat \<Rightarrow> poller \<times> chat" where
  "checkForNewMessages_done now r w =
     (let p = fst w; c = snd w;
          (p1, c1) =
            (case r of
               FetchFailed \<Rightarrow>
                 (adjustPollingFrequency now
                    (p\<lparr>consecutiveEmptyPolls := consecutiveEmptyPolls p + 2\<rparr>), c)
             | FetchData success messages \<Rightarrow>
                 (case messages of
                    None \<Rightarrow> (p, c)
                  | Some msgs \<Rightarrow>
                      if \<not> success then (p, c)
                      else
                        (let messageCount = length msgs
                         in if messageCount > lastMessageCount p
                            then
                              (let newMessages = take (messageCount - lastMessageCount p) msgs;
                                   c' = foldl (\<lambda>c message. displayNewMessage now message c) c
                                          (rev newMessages)
                               in (adjustPollingFrequency now
                                     (p\<lparr>lastMessageCount := messageCount,
                                        consecutiveEmptyPolls := 0\<rparr>), c'))
                            else
                              (adjustPollingFrequency now
                                 (p\<lparr>consecutiveEmptyPolls := consecutiveEmptyPolls p + 1\<rparr>), c))))
      in (if \<not> isPaused p1 then scheduleNextPoll p1 else p1, c1))"

text \<open>
  The callback of the timer armed by \<open>scheduleNextPoll\<close>: when the timer fires it queues
  the inner callback; the inner callback starts a check and schedules the next poll.
\<close>

definition timerFires :: "poller \<Rightarrow> poller" where
  "timerFires p =
     (if timerPending p then p\<lparr>timerPending := False, queuedTicks := queuedTicks p + 1\<rparr>
      else p)"

definition idleTick :: "poller \<Rightarrow> poller" where
  "idleTick p =
     (if queuedTicks p > 0
      then scheduleNextPoll (checkForNewMessages_start (p\<lparr>queuedTicks := queuedTicks p - 1\<rparr>))
      else p)"

text \<open>
  \<open>initializeMessagePolling\<close> and \<open>startMessagePollingWhenReady\<close> take the session id
  from \<open>window.VAPI_CONFIG.browserSessionId\<close> or \<open>window.BROWSER_SESSION_ID\<close>; the
  call of \<open>startMessagePolling\<close> in them is commented out.
\<close>

definition initializeMessagePolling :: "string option \<Rightarrow> string option \<Rightarrow> poller \<Rightarrow> poller" where
  "initializeMessagePolling configId legacyId p =
     (if truthy (currentSessionId p) then p
      else if truthy configId then p\<lparr>currentSessionId := configId\<rparr>
      else if truthy legacyId then p\<lparr>currentSessionId := legacyId\<rparr>
      else p)"

definition startMessagePollingWhenReady :: "string option \<Rightarrow> string option \<Rightarrow> poller \<Rightarrow> poller" where
  "startMessagePollingWhenReady configId legacyId p =
     (let sessionId = (if truthy configId then configId else legacyId)
      in if truthy sessionId \<and> \<not> truthy (currentSessionId p)
         then p\<lparr>currentSessionId := sessionId\<rparr>
         else p)"

section \<open>Runs of the page\<close>

text \<open>
  What can happen to the polling client, one event at a time: calls of its functions,
  and the browser running a callback the client has left with it (a pending timer, a
  queued inner callback, a request in flight, the five-minute chat timer).
\<close>

datatype event =
    MarkUserActivity int
  | SetVoiceActive bool int
  | ChatActivityTimeout
  | StartMessagePolling string
  | StopMessagePolling
  | InitializeMessagePolling
  | StartMessagePollingWhenReady
  | PausePolling
  | ResumePolling
  | ScheduleNextPoll
  | CheckForNewMessages
  | TimerFires
  | IdleTick
  | FetchDone int fetch_result

fun step :: "event \<Rightarrow> poller \<times> chat \<Rightarrow> poller \<times> chat" where
  "step (MarkUserActivity now) (p, c) = (markUserActivity now p, c)"
| "step (SetVoiceActive active now) (p, c) = (setVoiceActive active now p, c)"
| "step ChatActivityTimeout (p, c) = (chatActivityTimeout p, c)"
| "step (StartMessagePolling sessionId) (p, c) = (startMessagePolling sessionId p, c)"
| "step StopMessagePolling (p, c) = (stopMessagePolling p, c)"
| "step InitializeMessagePolling (p, c) =
     (initializeMessagePolling (configBrowserSessionId c) (BROWSER_SESSION_ID c) p, c)"
| "step StartMessagePollingWhenReady (p, c) =
     (startMessagePollingWhenReady (configBrowserSessionId c) (BROWSER_SESSION_ID c) p, c)"
| "step PausePolling (p, c) = (pausePolling p, c)"
| "step ResumePolling (p, c) = (resumePolling p, c)"
| "step ScheduleNextPoll (p, c) = (scheduleNextPoll p, c)"
| "step CheckForNewMessages (p, c) = (checkForNewMessages_start p, c)"
| "step TimerFires (p, c) = (timerFires p, c)"
| "step IdleTick (p, c) = (idleTick p, c)"
| "step (FetchDone now r) (p, c) =
     (if inFlight p > 0 then checkForNewMessages_done now r (p\<lparr>inFlight := inFlight p - 1\<rparr>, c)
      else (p, c))"

fun run :: "event list \<Rightarrow> poller \<times> chat \<Rightarrow> poller \<times> chat" where
  "run [] w = w"
| "run (e # es) w = run es (step e w)"

text \<open>
  The events the repository produces by itself. No code of the repository calls
  \<open>scheduleNextPoll\<close> or \<open>checkForNewMessages\<close> from outside the polling loop.
\<close>

fun pageEvent :: "event \<Rightarrow> bool" where
  "pageEvent ScheduleNextPoll = False"
| "pageEvent CheckForNewMessages = False"
| "pageEvent _ = True"

text \<open>
  The events that are neither an activity signal (\<open>markUserActivity\<close>,
  \<open>setVoiceActive(true)\<close>) nor a call of a scheduling function from outside.
\<close>

fun quietEvent :: "event \<Rightarrow> bool" where
  "quietEvent (MarkUserActivity now) = False"
| "quietEvent (SetVoiceActive active now) = (\<not> active)"
| "quietEvent ResumePolling = False"
| "quietEvent ScheduleNextPoll = False"
| "quietEvent CheckForNewMessages = False"
| "quietEvent _ = True"

text \<open>Appends to the transcript, for runs of the two appending functions.\<close>

datatype append_op =
    ChatAppend int string string string
  | VoiceAppend int voice_message

fun applyOp :: "append_op \<Rightarrow> chat \<Rightarrow> chat" where
  "applyOp (ChatAppend now msg sender src) c = addChatMessageWithSource now msg sender src c"
| "applyOp (VoiceAppend now m) c = handleVoiceTranscript now m c"

fun applyOps :: "append_op list \<Rightarrow> chat \<Rightarrow> chat" where
  "applyOps [] c = c"
| "applyOps (op # ops) c = applyOps ops (applyOp op c)"

section \<open>Predicates and example states for the properties\<close>

subsection \<open>Polling\<close>

text \<open>The bounds of the polling interval; the idle test of \<open>adjustPollingFrequency\<close>;
  the last statement of \<open>checkForNewMessages\<close>.\<close>

definition intervalInRange :: "poller \<Rightarrow> bool" where
  "intervalInRange p = (5000 \<le> currentPollingInterval p \<and> currentPollingInterval p \<le> 20000)"

definition pauseRule :: "int \<Rightarrow> poller \<Rightarrow> bool" where
  "pauseRule now p =
     (\<not> isVoiceActive p \<and> \<not> isChatActive p \<and> now - lastActivity p > 600000
      \<and> consecutiveEmptyPolls p > 5)"

definition rescheduleUnlessPaused :: "poller \<Rightarrow> poller" where
  "rescheduleUnlessPaused p = (if \<not> isPaused p then scheduleNextPoll p else p)"

text \<open>
  No poll is scheduled: the handle is \<open>null\<close>, no timer is waiting and no fired timer
  has its inner callback queued. \<open>pollingOff\<close>: moreover the client is not paused and
  has never sent a request. \<open>pausedIdle n\<close>: the client is paused, no poll is scheduled,
  and it has sent \<open>n\<close> requests so far.
\<close>

definition noTimer :: "poller \<Rightarrow> bool" where
  "noTimer p = (messagePollingInterval p = None \<and> \<not> timerPending p \<and> queuedTicks p = 0)"

definition pollingOff :: "poller \<Rightarrow> bool" where
  "pollingOff p = (noTimer p \<and> \<not> isPaused p \<and> inFlight p = 0 \<and> fetchesIssued p = 0)"

definition pausedIdle :: "nat \<Rightarrow> poller \<Rightarrow> bool" where
  "pausedIdle n p = (isPaused p \<and> noTimer p \<and> fetchesIssued p = n)"

text \<open>
  A page with the chat surface and the chat functions, session id \<open>s1\<close>, nothing stored.
\<close>

definition examplePage :: chat where
  "examplePage =
     \<lparr> chatHistory = None, localStorage = [], storageFull = False, chatMessagesPresent = True,
       chatFunctionsLoaded = True, BROWSER_SESSION_ID = Some ''s1'',
       configBrowserSessionId = None, variableValuesPresent = True,
       conversation_context = None, processedTranscripts = [], vapiSessionId = None,
       engineSort = (\<lambda>keys. keys) \<rparr>"

text \<open>The client loaded at time 0 with \<open>n\<close> empty polls counted.\<close>

definition idlePoller :: "nat \<Rightarrow> poller" where
  "idlePoller n = (initialPoller 0)\<lparr>consecutiveEmptyPolls := n\<rparr>"

text \<open>
  One round of the polling loop: the timer fires, its inner callback sends the request
  and arms the next timer, the request completes at time \<open>now\<close> with result \<open>r\<close>.
\<close>

definition pollCycle :: "int \<Rightarrow> fetch_result \<Rightarrow> event list" where
  "pollCycle now r = [TimerFires, IdleTick, FetchDone now r]"

definition emptyReply :: fetch_result where
  "emptyReply = FetchData True (Some [])"

text \<open>
  The example page after the session id is known and \<open>scheduleNextPoll\<close> has been
  called once; then after two failed polls, after four empty polls and after five empty
  polls, each with the next request already sent. The page was loaded at time 0 and saw
  no activity; the polls are 15 s apart from 700 s on.
\<close>

definition startedPolling :: "poller \<times> chat" where
  "startedPolling = run [InitializeMessagePolling, ScheduleNextPoll] (initialPoller 0, examplePage)"

definition afterTwoFailures :: "poller \<times> chat" where
  "afterTwoFailures =
     run (pollCycle 700000 FetchFailed @ pollCycle 715000 FetchFailed @ [TimerFires, IdleTick])
       startedPolling"

definition afterFourEmptyPolls :: "poller \<times> chat" where
  "afterFourEmptyPolls =
     run (pollCycle 700000 emptyReply @ pollCycle 715000 emptyReply @ pollCycle 730000 emptyReply
          @ pollCycle 745000 emptyReply @ [TimerFires, IdleTick]) startedPolling"

definition afterFiveEmptyPolls :: "poller \<times> chat" where
  "afterFiveEmptyPolls =
     run [FetchDone 760000 emptyReply, TimerFires, IdleTick] afterFourEmptyPolls"

text \<open>Events of a page on which polling is switched off, and events without activity.\<close>

definition disabledRun :: "event list" where
  "disabledRun =
     [InitializeMessagePolling, StartMessagePolling ''s1'', MarkUserActivity 1000,
      SetVoiceActive True 2000, TimerFires, IdleTick, FetchDone 3000 FetchFailed,
      SetVoiceActive False 4000, ChatActivityTimeout, StartMessagePollingWhenReady]"

definition quietRun :: "event list" where
  "quietRun = [ChatActivityTimeout, SetVoiceActive False 800000, TimerFires, IdleTick,
               StopMessagePolling, InitializeMessagePolling]"

subsection \<open>Transcript\<close>

text \<open>
  The transcript an append starts from: \<open>window.chatHistory\<close>, or what
  \<open>loadChatHistoryFromStorage\<close> returns when it is still undefined.
\<close>

definition currentHistory :: "int \<Rightarrow> chat \<Rightarrow> message list" where
  "currentHistory now c =
     (case chatHistory c of Some h \<Rightarrow> h | None \<Rightarrow> fst (loadChatHistoryFromStorage now c))"

text \<open>
  The entry \<open>addChatMessageWithSource\<close> pushes, and the entry \<open>handleVoiceTranscript\<close>
  pushes by itself.
\<close>

definition chatEntry :: "int \<Rightarrow> string \<Rightarrow> string \<Rightarrow> string \<Rightarrow> message" where
  "chatEntry now msg sender src =
     \<lparr> role = (if sender = ''user'' then User else Assistant), content = msg,
       timestamp = now, source = src, isFinal = False \<rparr>"

definition voiceEntry :: "int \<Rightarrow> voice_message \<Rightarrow> message" where
  "voiceEntry now m =
     \<lparr> role = (if vrole m = ''user'' then User else Assistant), content = transcript m,
       timestamp = now, source = ''voice'', isFinal = True \<rparr>"

text \<open>The surroundings of the page, which no chat function changes.\<close>

definition sameEnv :: "chat \<Rightarrow> chat \<Rightarrow> bool" where
  "sameEnv c c' =
     (storageFull c' = storageFull c \<and> chatMessagesPresent c' = chatMessagesPresent c
      \<and> chatFunctionsLoaded c' = chatFunctionsLoaded c
      \<and> BROWSER_SESSION_ID c' = BROWSER_SESSION_ID c
      \<and> configBrowserSessionId c' = configBrowserSessionId c
      \<and> variableValuesPresent c' = variableValuesPresent c)"

text \<open>
  Of \<open>handleVoiceTranscript\<close>: the key it puts into \<open>processedTranscripts\<close>, the sender
  it passes on, the test under which it returns without doing anything, and the state in
  which it calls \<open>addChatMessageWithSource\<close> when the chat functions are loaded (key
  added, own entry pushed and saved).
\<close>

definition voiceKey :: "voice_message \<Rightarrow> string" where
  "voiceKey m = vrole m @ ''-'' @ trim (transcript m)"

definition voiceSender :: "voice_message \<Rightarrow> string" where
  "voiceSender m = (if vrole m = ''user'' then ''user'' else ''assistant'')"

definition voiceDropped :: "voice_message \<Rightarrow> chat \<Rightarrow> bool" where
  "voiceDropped m c =
     (transcript m = [] \<or> vrole m = [] \<or> recentlyProcessed m (processedTranscripts c))"

definition voicePushed :: "int \<Rightarrow> voice_message \<Rightarrow> chat \<Rightarrow> chat" where
  "voicePushed now m c =
     (let c1 = c\<lparr>processedTranscripts := setAdd (voiceKey m) (processedTranscripts c)\<rparr>;
          c2 = (case chatHistory c1 of
                  None \<Rightarrow> snd (loadChatHistoryFromStorage now c1)
                | Some h \<Rightarrow> c1);
          h1 = currentHistory now c1 @ [voiceEntry now m]
      in saveChatHistoryToStorage now h1 (c2\<lparr>chatHistory := Some h1\<rparr>))"

text \<open>The arguments \<open>displayNewMessage\<close> passes to \<open>addChatMessageWithSource\<close>.\<close>

definition inboundContent :: "inbound \<Rightarrow> string" where
  "inboundContent d = (if in_content d = [] then ''Keine Nachricht'' else in_content d)"

definition inboundRole :: "inbound \<Rightarrow> string" where
  "inboundRole d = (if in_role d = [] then ''assistant'' else in_role d)"

definition inboundSource :: "inbound \<Rightarrow> string" where
  "inboundSource d = (if in_source d = [] then ''voice-function'' else in_source d)"

text \<open>
  Example data: the example page with an empty transcript in memory, a voice transcript,
  a message of the inbox, a transcript of two entries.
\<close>

definition emptyTranscriptPage :: chat where
  "emptyTranscriptPage = examplePage\<lparr>chatHistory := Some []\<rparr>"

definition helloVoice :: voice_message where
  "helloVoice = \<lparr> vrole = ''user'', transcript = ''Hallo'', vsessionId = [] \<rparr>"

definition confirmation :: inbound where
  "confirmation =
     \<lparr> in_content = ''Termin bestaetigt'', in_role = ''assistant'', in_source = [] \<rparr>"

definition greeting :: "message list" where
  "greeting = [chatEntry 1000 ''Hallo'' ''user'' ''chat'',
               chatEntry 2000 ''Guten Tag'' ''assistant'' ''chat'']"

text \<open>
  The example page before its history is initialised, with the two entries stored under
  the key of its session and a storage that takes no further write.
\<close>

definition storedPage :: chat where
  "storedPage =
     examplePage\<lparr>localStorage := [(''chatHistory_s1'', 500, greeting)], storageFull := True\<rparr>"

subsection \<open>Runs of appends\<close>

text \<open>
  A page on which an append reaches the transcript and the storage: the chat container
  exists, the chat functions are loaded, \<open>setItem\<close> does not throw.
\<close>

definition chatReady :: "chat \<Rightarrow> bool" where
  "chatReady c = (chatMessagesPresent c \<and> chatFunctionsLoaded c \<and> \<not> storageFull c)"

text \<open>
  The entries an append adds on such a page: \<open>addChatMessageWithSource\<close> one,
  \<open>handleVoiceTranscript\<close> two, or none when it drops the transcript or its text is
  blank. \<open>pushedAll\<close> collects them along a run.
\<close>

fun pushed :: "append_op \<Rightarrow> chat \<Rightarrow> message list" where
  "pushed (ChatAppend now msg sender src) c = [chatEntry now msg sender src]"
| "pushed (VoiceAppend now m) c =
     (if voiceDropped m c \<or> trim (transcript m) = [] then []
      else [voiceEntry now m, chatEntry now (transcript m) (voiceSender m) ''voice''])"

fun pushedAll :: "append_op list \<Rightarrow> chat \<Rightarrow> message list" where
  "pushedAll [] c = []"
| "pushedAll (op # ops) c = pushed op c @ pushedAll ops (applyOp op c)"

text \<open>
  Example data: a transcript of 30 entries, the example page holding it, three appends
  (the third repeats the second), the example page with a full storage, and the page
  holding the 30 entries without the chat container.
\<close>

definition fullTranscript :: "message list" where
  "fullTranscript = replicate 30 (chatEntry 0 ''alt'' ''user'' ''chat'')"

definition fullPage :: chat where
  "fullPage = examplePage\<lparr>chatHistory := Some fullTranscript\<rparr>"

definition exampleOps :: "append_op list" where
  "exampleOps = [ChatAppend 1000 ''Guten Tag'' ''assistant'' ''chat'', VoiceAppend 2000 helloVoice,
                 VoiceAppend 3000 helloVoice]"

definition fullStoragePage :: chat where
  "fullStoragePage = emptyTranscriptPage\<lparr>storageFull := True\<rparr>"

definition noContainerPage :: chat where
  "noContainerPage = fullPage\<lparr>chatMessagesPresent := False\<rparr>"

subsection \<open>The fallback transcript\<close>

text \<open>
  The keys \<open>loadChatHistoryFromStorage\<close> searches; the number \<open>parseInt\<close> reads from
  a key, as an integer: the value of a finite double, \<open>2^1024\<close> and its negative for
  the infinities, which lie above and below every finite double (0 stands in for
  \<open>NaN\<close>); and the first key among those with the greatest number.
\<close>

definition chatHistoryKeys :: "chat \<Rightarrow> string list" where
  "chatHistoryKeys c = filter (\<lambda>key. startsWith key ''chatHistory_'') (map fst (localStorage c))"

fun rank :: "number \<Rightarrow> int" where
  "rank NaN = 0"
| "rank (Num v) = v"
| "rank PlusInfinity = 2 ^ 1024"
| "rank MinusInfinity = - (2 ^ 1024)"

definition stampOf :: "string \<Rightarrow> int" where
  "stampOf key = rank (parseInt (stampField key))"

text \<open>A number that is not \<open>NaN\<close> and, when finite, lies within the range of the doubles.\<close>

definition properDouble :: "number \<Rightarrow> bool" where
  "properDouble x = (case x of NaN \<Rightarrow> False | Num k \<Rightarrow> \<bar>k\<bar> < 2 ^ 1024 | _ \<Rightarrow> True)"

fun newestKey :: "string list \<Rightarrow> string option" where
  "newestKey [] = None"
| "newestKey (k # ks) =
     (case newestKey ks of
        None \<Rightarrow> Some k
      | Some k' \<Rightarrow> if stampOf k' \<le> stampOf k then Some k else Some k')"

text \<open>
  Following the words of the specification: the most recently written transcript is the
  one of the \<open>chatHistory_\<close> item with the latest write time.
\<close>

fun latestWritten :: "(string \<times> int \<times> message list) list \<Rightarrow> (string \<times> int \<times> message list) option" where
  "latestWritten [] = None"
| "latestWritten (e # es) =
     (case latestWritten es of
        None \<Rightarrow> Some e
      | Some e' \<Rightarrow> if fst (snd e') \<le> fst (snd e) then Some e else Some e')"

definition mostRecentlyWritten :: "chat \<Rightarrow> message list option" where
  "mostRecentlyWritten c =
     map_option (\<lambda>e. snd (snd e))
       (latestWritten (filter (\<lambda>e. startsWith (fst e) ''chatHistory_'') (localStorage c)))"

text \<open>
  Example data: two tabs share the local storage. The tab of session \<open>200_b\<close> appends a
  message at time 1000, then the tab of the older session \<open>100_a\<close> appends one at time
  2000. A new tab with session \<open>300_c\<close> opens on this storage.
\<close>

definition tabStorage :: "(string \<times> int \<times> message list) list" where
  "tabStorage =
     localStorage
       (addChatMessageWithSource 2000 ''aus Sitzung A'' ''user'' ''chat''
          (emptyTranscriptPage\<lparr>BROWSER_SESSION_ID := Some ''100_a'',
             localStorage :=
               localStorage
                 (addChatMessageWithSource 1000 ''aus Sitzung B'' ''user'' ''chat''
                    (emptyTranscriptPage\<lparr>BROWSER_SESSION_ID := Some ''200_b''\<rparr>))\<rparr>))"

text \<open>
  A storage with two keys whose numbers differ only beyond \<open>2^53\<close>, and a new tab on it.
\<close>

definition largeStampStorage :: "(string \<times> int \<times> message list) list" where
  "largeStampStorage =
     [(''chatHistory_9007199254740992_b'', 1000, [chatEntry 1000 ''aus Sitzung B'' ''user'' ''chat'']),
      (''chatHistory_9007199254740993_a'', 2000, [chatEntry 2000 ''aus Sitzung A'' ''user'' ''chat''])]"

definition largeStampTab :: chat where
  "largeStampTab =
     examplePage\<lparr>BROWSER_SESSION_ID := Some ''300_c'', localStorage := largeStampStorage\<rparr>"

definition newTab :: chat where
  "newTab = examplePage\<lparr>BROWSER_SESSION_ID := Some ''300_c'', localStorage := tabStorage\<rparr>"

section \<open>Properties of the polling client\<close>

lemmas poller_defs = initialPoller_def stopMessagePolling_def startMessagePolling_def
  scheduleNextPoll_def markUserActivity_def chatActivityTimeout_def setVoiceActive_def
  pausePolling_def resumePolling_def activityTier_def adjustPollingFrequency_def
  checkForNewMessages_start_def checkForNewMessages_done_def timerFires_def idleTick_def
  initializeMessagePolling_def startMessagePollingWhenReady_def truthy_def

subsection \<open>The four ways a completed request is handled\<close>

lemma done_failed:
  "fst (checkForNewMessages_done now FetchFailed (p, c)) =
     rescheduleUnlessPaused
       (adjustPollingFrequency now (p\<lparr>consecutiveEmptyPolls := consecutiveEmptyPolls p + 2\<rparr>))"
  by (simp add: checkForNewMessages_done_def rescheduleUnlessPaused_def Let_def)

lemma done_ignored:
  "messages = None \<or> \<not> success \<Longrightarrow>
   fst (checkForNewMessages_done now (FetchData success messages) (p, c)) =
     rescheduleUnlessPaused p"
  by (auto simp: checkForNewMessages_done_def rescheduleUnlessPaused_def Let_def
      split: option.splits)

lemma done_new:
  "lastMessageCount p < length msgs \<Longrightarrow>
   fst (checkForNewMessages_done now (FetchData True (Some msgs)) (p, c)) =
     rescheduleUnlessPaused
       (adjustPollingFrequency now
          (p\<lparr>lastMessageCount := length msgs, consecutiveEmptyPolls := 0\<rparr>))"
  by (simp add: checkForNewMessages_done_def rescheduleUnlessPaused_def Let_def)

lemma done_empty:
  "\<not> lastMessageCount p < length msgs \<Longrightarrow>
   fst (checkForNewMessages_done now (FetchData True (Some msgs)) (p, c)) =
     rescheduleUnlessPaused
       (adjustPollingFrequency now (p\<lparr>consecutiveEmptyPolls := consecutiveEmptyPolls p + 1\<rparr>))"
  by (simp add: checkForNewMessages_done_def rescheduleUnlessPaused_def Let_def)

lemma done_cases:
  obtains (failed) "r = FetchFailed"
  | (ignored) success messages
      where "r = FetchData success messages" "messages = None \<or> \<not> success"
  | (new) msgs where "r = FetchData True (Some msgs)" "lastMessageCount p < length msgs"
  | (empty) msgs where "r = FetchData True (Some msgs)" "\<not> lastMessageCount p < length msgs"
proof (cases r)
  case FetchFailed
  then show ?thesis by (rule failed)
next
  case (FetchData success messages)
  show ?thesis
  proof (cases "messages = None \<or> \<not> success")
    case True
    with FetchData show ?thesis by (rule ignored)
  next
    case False
    then obtain msgs where m: "messages = Some msgs" "success" by auto
    show ?thesis
    proof (cases "lastMessageCount p < length msgs")
      case True
      with FetchData m show ?thesis by (intro new) auto
    next
      case False
      with FetchData m show ?thesis by (intro empty) auto
    qed
  qed
qed

lemma reschedule_fields [simp]:
  "consecutiveEmptyPolls (rescheduleUnlessPaused p) = consecutiveEmptyPolls p"
  "isPaused (rescheduleUnlessPaused p) = isPaused p"
  "currentPollingInterval (rescheduleUnlessPaused p) = currentPollingInterval p"
  "fetchesIssued (rescheduleUnlessPaused p) = fetchesIssued p"
  "queuedTicks (rescheduleUnlessPaused p) = queuedTicks p"
  by (simp_all add: rescheduleUnlessPaused_def scheduleNextPoll_def)

lemma reschedule_timer:
  "messagePollingInterval (rescheduleUnlessPaused p) =
     (if isPaused p then messagePollingInterval p else Some (currentPollingInterval p))"
  "timerPending (rescheduleUnlessPaused p) = (if isPaused p then timerPending p else True)"
  by (simp_all add: rescheduleUnlessPaused_def scheduleNextPoll_def)

subsection \<open>The interval stays within its bounds\<close>

lemma activityTier_range: "5000 \<le> activityTier t p \<and> activityTier t p \<le> 15000"
  by (simp add: activityTier_def)

lemma adjust_range: "intervalInRange p \<Longrightarrow> intervalInRange (adjustPollingFrequency now p)"
  using activityTier_range [of "now - lastActivity p" p]
  by (auto simp: intervalInRange_def adjustPollingFrequency_def pausePolling_def Let_def min_def)

lemma reschedule_range: "intervalInRange (rescheduleUnlessPaused p) = intervalInRange p"
  by (simp add: intervalInRange_def)

lemma range_counter [simp]:
  "intervalInRange (p\<lparr>consecutiveEmptyPolls := n\<rparr>) = intervalInRange p"
  "intervalInRange (p\<lparr>lastMessageCount := k\<rparr>) = intervalInRange p"
  "intervalInRange (p\<lparr>inFlight := k\<rparr>) = intervalInRange p"
  by (simp_all add: intervalInRange_def)

lemma done_range:
  assumes "intervalInRange p"
  shows "intervalInRange (fst (checkForNewMessages_done now r (p, c)))"
proof (cases rule: done_cases [where r = r and p = p])
  case failed
  then show ?thesis using assms
    by (simp add: done_failed reschedule_range adjust_range del: add_2_eq_Suc')
next
  case (ignored success messages)
  then show ?thesis using assms by (simp add: done_ignored reschedule_range)
next
  case (new msgs)
  then show ?thesis using assms
    by (simp add: done_new reschedule_range adjust_range)
next
  case (empty msgs)
  then show ?thesis using assms
    by (simp add: done_empty reschedule_range adjust_range)
qed

lemma step_range: "intervalInRange (fst w) \<Longrightarrow> intervalInRange (fst (step e w))"
proof (cases w)
  case (Pair p c)
  assume "intervalInRange (fst w)"
  then have rp: "intervalInRange p" using Pair by simp
  show ?thesis
  proof (cases e)
    case (FetchDone now res)
    then show ?thesis using Pair rp by (simp add: done_range)
  qed (use rp Pair in \<open>auto simp: intervalInRange_def markUserActivity_def setVoiceActive_def
      chatActivityTimeout_def startMessagePolling_def stopMessagePolling_def
      initializeMessagePolling_def startMessagePollingWhenReady_def pausePolling_def
      resumePolling_def checkForNewMessages_start_def timerFires_def idleTick_def
      scheduleNextPoll_def Let_def\<close>)
qed

lemma run_range: "intervalInRange (fst w) \<Longrightarrow> intervalInRange (fst (run evs w))"
  by (induction evs arbitrary: w) (simp_all add: step_range)

text \<open>
  Claim C1. From the state in which the script is loaded, after every sequence of events
  (calls of \<open>markUserActivity\<close> and \<open>setVoiceActive\<close>, polls that come back empty,
  with new messages or failed, and every other call and callback of the client) the
  polling interval is at least 5000 ms and at most 20000 ms.
\<close>

theorem polling_interval_bounded:
  "5000 \<le> currentPollingInterval (fst (run evs (initialPoller t0, c)))
   \<and> currentPollingInterval (fst (run evs (initialPoller t0, c))) \<le> 20000"
  using run_range [of "(initialPoller t0, c)" evs]
  by (simp add: intervalInRange_def initialPoller_def)

subsection \<open>The dampening rule\<close>

lemma adjust_interval:
  "currentPollingInterval (adjustPollingFrequency now p) =
     (if pauseRule now p then currentPollingInterval p
      else if consecutiveEmptyPolls p > 25
           then min (activityTier (now - lastActivity p) p * (12 / 10)) 20000
           else activityTier (now - lastActivity p) p)"
  by (simp add: adjustPollingFrequency_def pauseRule_def pausePolling_def Let_def)

text \<open>
  Claim C8, as stated, fails: with no activity flag, 26 empty polls and more than
  600000 ms since the last activity (here 700000 ms, which is in the 15 s tier) the idle
  test of \<open>adjustPollingFrequency\<close> holds, the function returns after
  \<open>pausePolling()\<close> and the interval keeps its old value 15000 instead of becoming 18000.
\<close>

theorem dampening_skipped_when_idle:
  "\<not> isVoiceActive (idlePoller 26) \<and> \<not> isChatActive (idlePoller 26)
   \<and> 700000 - lastActivity (idlePoller 26) \<ge> 600000
   \<and> activityTier (700000 - lastActivity (idlePoller 26)) (idlePoller 26) = 15000
   \<and> consecutiveEmptyPolls (idlePoller 26) = 26
   \<and> currentPollingInterval (adjustPollingFrequency 700000 (idlePoller 26)) = 15000
   \<and> currentPollingInterval (adjustPollingFrequency 700000 (idlePoller 26)) \<noteq> 18000"
  by (simp add: idlePoller_def initialPoller_def adjustPollingFrequency_def pausePolling_def
      activityTier_def)

text \<open>
  Claim C8, amended. When the idle test of \<open>adjustPollingFrequency\<close> holds the interval
  is left as it was; otherwise it becomes the interval of the activity tier, replaced by
  min(tier * 1.2, 20000) when more than 25 polls in a row were empty. With no activity
  flag and 26 empty polls the value 18000 is computed when exactly 600000 ms have passed
  since the last activity.
\<close>

theorem adjust_dampening:
  "currentPollingInterval (adjustPollingFrequency now p) =
     (if pauseRule now p then currentPollingInterval p
      else if consecutiveEmptyPolls p > 25
           then min (activityTier (now - lastActivity p) p * (12 / 10)) 20000
           else activityTier (now - lastActivity p) p)
   \<and> (\<not> isVoiceActive p \<and> \<not> isChatActive p \<and> now - lastActivity p = 600000
        \<and> consecutiveEmptyPolls p = 26
      \<longrightarrow> currentPollingInterval (adjustPollingFrequency now p) = 18000)"
  by (simp add: adjust_interval pauseRule_def activityTier_def)

text \<open>An instance: loaded at time 0, no activity flag, 26 empty polls, adjusted at time 600000.\<close>

theorem adjust_dampening_witness:
  "\<not> isVoiceActive (idlePoller 26) \<and> \<not> isChatActive (idlePoller 26)
   \<and> 600000 - lastActivity (idlePoller 26) = 600000
   \<and> consecutiveEmptyPolls (idlePoller 26) = 26
   \<and> currentPollingInterval (adjustPollingFrequency 600000 (idlePoller 26)) = 18000"
  using adjust_dampening [of 600000 "idlePoller 26"]
  by (simp add: idlePoller_def initialPoller_def)

subsection \<open>Polling is switched off\<close>

lemma step_pollingOff:
  assumes "pageEvent e" "pollingOff (fst w)"
  shows "pollingOff (fst (step e w))"
proof (cases w)
  case (Pair p c)
  with assms show ?thesis
    by (cases e) (auto simp: pollingOff_def noTimer_def markUserActivity_def setVoiceActive_def
      chatActivityTimeout_def startMessagePolling_def stopMessagePolling_def
      initializeMessagePolling_def startMessagePollingWhenReady_def pausePolling_def
      resumePolling_def timerFires_def idleTick_def Let_def)
qed

lemma step_pollingOff_chat:
  assumes "pollingOff (fst w)"
  shows "snd (step e w) = snd w"
proof (cases w)
  case (Pair p c)
  with assms show ?thesis by (cases e) (simp_all add: pollingOff_def)
qed

lemma run_pollingOff:
  "list_all pageEvent evs \<Longrightarrow> pollingOff (fst w) \<Longrightarrow>
   pollingOff (fst (run evs w)) \<and> snd (run evs w) = snd w"
  by (induction evs arbitrary: w) (simp_all add: step_pollingOff step_pollingOff_chat)

lemma initial_pollingOff: "pollingOff (initialPoller t0)"
  by (simp add: pollingOff_def noTimer_def initialPoller_def)

text \<open>
  Claim C5. For every session id, \<open>startMessagePolling\<close> is \<open>stopMessagePolling\<close>:
  it clears the handle and the timer behind it and leaves every other variable as it was
  (no session id recorded, no state reset, no check started, no poll scheduled). And from
  the state in which the script is loaded, after every sequence of events the repository
  produces, no timer is armed, no callback is queued, no request is in flight and none was
  ever sent, and the chat state is as it was: the polling transport never runs and
  delivers no message. (The push channel itself is not part of the sources.)
\<close>

theorem startMessagePolling_disabled:
  "startMessagePolling sessionId p = stopMessagePolling p
   \<and> messagePollingInterval (startMessagePolling sessionId p) = None
   \<and> (messagePollingInterval p \<noteq> None \<longrightarrow> \<not> timerPending (startMessagePolling sessionId p))
   \<and> startMessagePolling sessionId p
        = p\<lparr>messagePollingInterval := None,
             timerPending := (messagePollingInterval p = None \<and> timerPending p)\<rparr>
   \<and> (list_all pageEvent evs \<longrightarrow>
        pollingOff (fst (run evs (initialPoller t0, c))) \<and> snd (run evs (initialPoller t0, c)) = c)"
proof -
  have "list_all pageEvent evs \<longrightarrow>
        pollingOff (fst (run evs (initialPoller t0, c))) \<and> snd (run evs (initialPoller t0, c)) = c"
    using run_pollingOff [of evs "(initialPoller t0, c)"] by (simp add: initial_pollingOff)
  moreover have "startMessagePolling sessionId p
        = p\<lparr>messagePollingInterval := None,
             timerPending := (messagePollingInterval p = None \<and> timerPending p)\<rparr>"
    by (cases "messagePollingInterval p")
      (simp_all add: startMessagePolling_def stopMessagePolling_def)
  ultimately show ?thesis
    by (simp add: startMessagePolling_def stopMessagePolling_def)
qed

text \<open>An instance: a run of the example page in which the session id becomes known, \<open>startMessagePolling\<close> is called, the user writes and a voice call starts and ends; and a call of \<open>startMessagePolling\<close> with a timer pending.\<close>

theorem startMessagePolling_disabled_witness:
  "list_all pageEvent disabledRun
   \<and> pollingOff (fst (run disabledRun (initialPoller 0, examplePage)))
   \<and> snd (run disabledRun (initialPoller 0, examplePage)) = examplePage
   \<and> currentSessionId (fst (run disabledRun (initialPoller 0, examplePage))) = Some ''s1''
   \<and> messagePollingInterval
        (startMessagePolling ''s1''
           ((initialPoller 0)\<lparr>messagePollingInterval := Some 15000, timerPending := True\<rparr>)) = None
   \<and> \<not> timerPending
        (startMessagePolling ''s1''
           ((initialPoller 0)\<lparr>messagePollingInterval := Some 15000, timerPending := True\<rparr>))"
  using startMessagePolling_disabled
          [of "''s1''" "(initialPoller 0)\<lparr>messagePollingInterval := Some 15000, timerPending := True\<rparr>"
              disabledRun 0 examplePage]
  by (simp add: disabledRun_def examplePage_def poller_defs)

subsection \<open>A failed request\<close>

lemma adjust_counter [simp]:
  "consecutiveEmptyPolls (adjustPollingFrequency now p) = consecutiveEmptyPolls p"
  by (simp add: adjustPollingFrequency_def pausePolling_def Let_def)

lemma adjust_paused:
  "isPaused (adjustPollingFrequency now p) =
     (isPaused p \<or> (pauseRule now p \<and> messagePollingInterval p \<noteq> None))"
  by (auto simp: adjustPollingFrequency_def pausePolling_def pauseRule_def Let_def)

lemma adjust_pauses:
  "\<not> isPaused p \<Longrightarrow> isPaused (adjustPollingFrequency now p) \<Longrightarrow>
   messagePollingInterval (adjustPollingFrequency now p) = None
   \<and> \<not> timerPending (adjustPollingFrequency now p)"
  by (auto simp: adjustPollingFrequency_def pausePolling_def Let_def split: if_splits)

lemma startedPolling_eq:
  "startedPolling =
     ((initialPoller 0)\<lparr>currentSessionId := Some ''s1'', messagePollingInterval := Some 15000,
                         timerPending := True\<rparr>, examplePage)"
  by (simp add: startedPolling_def poller_defs examplePage_def)

lemma afterTwoFailures_eq:
  "afterTwoFailures =
     ((initialPoller 0)\<lparr>currentSessionId := Some ''s1'', messagePollingInterval := Some 15000,
                         timerPending := True, consecutiveEmptyPolls := 4, inFlight := 1,
                         fetchesIssued := 3\<rparr>, examplePage)"
  by (simp add: afterTwoFailures_def startedPolling_eq pollCycle_def poller_defs Let_def)

text \<open>
  Claim C7, as stated, fails: on a page that has been idle for more than 600000 ms the
  third failed request in a row brings the counter from 4 to 6, the idle test holds,
  \<open>pausePolling()\<close> clears the timer, and \<open>checkForNewMessages\<close> does not schedule the
  next poll.
\<close>

theorem failed_fetch_not_rescheduled_when_pausing:
  "inFlight (fst afterTwoFailures) = 1 \<and> \<not> isPaused (fst afterTwoFailures)
   \<and> timerPending (fst afterTwoFailures)
   \<and> \<not> timerPending (fst (step (FetchDone 730000 FetchFailed) afterTwoFailures))
   \<and> messagePollingInterval (fst (step (FetchDone 730000 FetchFailed) afterTwoFailures)) = None
   \<and> isPaused (fst (step (FetchDone 730000 FetchFailed) afterTwoFailures))"
  by (simp add: afterTwoFailures_eq poller_defs Let_def)

text \<open>
  Claim C7, amended. A failed request adds 2 to \<open>consecutiveEmptyPolls\<close>, runs
  \<open>adjustPollingFrequency\<close> and changes nothing in the chat state. If the client is not
  paused afterwards, the next poll is scheduled with the current interval as its delay,
  which is at least 5000 ms when the interval was within its bounds. If this very failure
  paused the client, no poll is scheduled. The client is paused afterwards exactly when it
  was paused before, or the idle test holds for the raised counter and the timer handle
  was set.
\<close>

theorem failed_fetch_penalty:
  assumes "intervalInRange p"
  shows "consecutiveEmptyPolls (fst (checkForNewMessages_done now FetchFailed (p, c)))
           = consecutiveEmptyPolls p + 2
    \<and> snd (checkForNewMessages_done now FetchFailed (p, c)) = c
    \<and> (\<not> isPaused (fst (checkForNewMessages_done now FetchFailed (p, c))) \<longrightarrow>
          timerPending (fst (checkForNewMessages_done now FetchFailed (p, c)))
          \<and> messagePollingInterval (fst (checkForNewMessages_done now FetchFailed (p, c)))
              = Some (currentPollingInterval (fst (checkForNewMessages_done now FetchFailed (p, c))))
          \<and> 5000 \<le> currentPollingInterval (fst (checkForNewMessages_done now FetchFailed (p, c))))
    \<and> (\<not> isPaused p \<and> isPaused (fst (checkForNewMessages_done now FetchFailed (p, c))) \<longrightarrow>
          \<not> timerPending (fst (checkForNewMessages_done now FetchFailed (p, c)))
          \<and> messagePollingInterval (fst (checkForNewMessages_done now FetchFailed (p, c))) = None)
    \<and> isPaused (fst (checkForNewMessages_done now FetchFailed (p, c)))
        = (isPaused p \<or> (pauseRule now (p\<lparr>consecutiveEmptyPolls := consecutiveEmptyPolls p + 2\<rparr>)
                          \<and> messagePollingInterval p \<noteq> None))"
proof -
  let ?q = "p\<lparr>consecutiveEmptyPolls := consecutiveEmptyPolls p + 2\<rparr>"
  let ?a = "adjustPollingFrequency now ?q"
  have r: "intervalInRange ?a" using assms by (simp add: adjust_range del: add_2_eq_Suc')
  have f: "fst (checkForNewMessages_done now FetchFailed (p, c)) = rescheduleUnlessPaused ?a"
    by (rule done_failed)
  have s: "snd (checkForNewMessages_done now FetchFailed (p, c)) = c"
    by (simp add: checkForNewMessages_done_def Let_def split: prod.splits)
  have pz: "\<not> isPaused p \<Longrightarrow> isPaused ?a \<Longrightarrow>
            messagePollingInterval ?a = None \<and> \<not> timerPending ?a"
    using adjust_pauses [of ?q now] by simp
  show ?thesis
    unfolding f s using r pz
    by (auto simp: reschedule_timer adjust_paused intervalInRange_def simp del: add_2_eq_Suc')
qed

text \<open>An instance: the first request of the example page fails at time 700000.\<close>

theorem failed_fetch_penalty_witness:
  "intervalInRange (fst startedPolling)
   \<and> consecutiveEmptyPolls (fst (checkForNewMessages_done 700000 FetchFailed startedPolling)) = 2
   \<and> \<not> isPaused (fst (checkForNewMessages_done 700000 FetchFailed startedPolling))
   \<and> timerPending (fst (checkForNewMessages_done 700000 FetchFailed startedPolling))
   \<and> messagePollingInterval (fst (checkForNewMessages_done 700000 FetchFailed startedPolling))
        = Some 15000"
  using failed_fetch_penalty [of "fst startedPolling" 700000 "snd startedPolling"]
  by (simp add: startedPolling_eq intervalInRange_def poller_defs Let_def pauseRule_def)

subsection \<open>Pause and resume\<close>

lemma adjust_pausedIdle: "pausedIdle n p \<Longrightarrow> pausedIdle n (adjustPollingFrequency now p)"
  by (simp add: pausedIdle_def noTimer_def adjustPollingFrequency_def pausePolling_def Let_def)

lemma pausedIdle_upd [simp]:
  "pausedIdle n (p\<lparr>consecutiveEmptyPolls := k\<rparr>) = pausedIdle n p"
  "pausedIdle n (p\<lparr>lastMessageCount := k\<rparr>) = pausedIdle n p"
  "pausedIdle n (p\<lparr>inFlight := k\<rparr>) = pausedIdle n p"
  by (simp_all add: pausedIdle_def noTimer_def)

lemma reschedule_pausedIdle: "pausedIdle n p \<Longrightarrow> rescheduleUnlessPaused p = p"
  by (simp add: pausedIdle_def rescheduleUnlessPaused_def)

lemma done_pausedIdle:
  assumes "pausedIdle n p"
  shows "pausedIdle n (fst (checkForNewMessages_done now r (p, c)))"
proof (cases rule: done_cases [where r = r and p = p])
  case failed
  have "pausedIdle n (adjustPollingFrequency now
          (p\<lparr>consecutiveEmptyPolls := consecutiveEmptyPolls p + 2\<rparr>))"
    using assms by (intro adjust_pausedIdle) simp
  then show ?thesis using failed
    by (simp add: done_failed reschedule_pausedIdle del: add_2_eq_Suc')
next
  case (ignored success messages)
  then show ?thesis using assms by (simp add: done_ignored reschedule_pausedIdle)
next
  case (new msgs)
  have "pausedIdle n (adjustPollingFrequency now
          (p\<lparr>lastMessageCount := length msgs, consecutiveEmptyPolls := 0\<rparr>))"
    using assms by (intro adjust_pausedIdle) simp
  then show ?thesis using new by (simp add: done_new reschedule_pausedIdle)
next
  case (empty msgs)
  have "pausedIdle n (adjustPollingFrequency now
          (p\<lparr>consecutiveEmptyPolls := consecutiveEmptyPolls p + 1\<rparr>))"
    using assms by (intro adjust_pausedIdle) simp
  then show ?thesis using empty by (simp add: done_empty reschedule_pausedIdle)
qed

lemma step_pausedIdle:
  assumes "quietEvent e" "pausedIdle n (fst w)"
  shows "pausedIdle n (fst (step e w))"
proof (cases w)
  case (Pair p c)
  with assms have pi: "pausedIdle n p" by simp
  show ?thesis
  proof (cases e)
    case (FetchDone now res)
    then show ?thesis using Pair pi by (simp add: done_pausedIdle)
  qed (use assms(1) pi Pair in \<open>auto simp: pausedIdle_def noTimer_def setVoiceActive_def
      chatActivityTimeout_def startMessagePolling_def stopMessagePolling_def
      initializeMessagePolling_def startMessagePollingWhenReady_def pausePolling_def
      timerFires_def idleTick_def Let_def\<close>)
qed

lemma run_pausedIdle:
  "list_all quietEvent evs \<Longrightarrow> pausedIdle n (fst w) \<Longrightarrow> pausedIdle n (fst (run evs w))"
  by (induction evs arbitrary: w) (simp_all add: step_pausedIdle)

lemma activity_resumes:
  assumes "pausedIdle n p"
  shows "\<not> isPaused (markUserActivity t p) \<and> timerPending (markUserActivity t p)
         \<and> messagePollingInterval (markUserActivity t p) = Some (currentPollingInterval p)"
    and "\<not> isPaused (setVoiceActive True t p) \<and> timerPending (setVoiceActive True t p)
         \<and> messagePollingInterval (setVoiceActive True t p) = Some (currentPollingInterval p)"
  using assms
  by (simp_all add: pausedIdle_def markUserActivity_def setVoiceActive_def scheduleNextPoll_def
      Let_def)

lemma empty_poll_pauses:
  assumes "\<not> isPaused p" "messagePollingInterval p \<noteq> None" "queuedTicks p = 0"
    and "\<not> isVoiceActive p" "\<not> isChatActive p"
    and "now - lastActivity p > 600000" "consecutiveEmptyPolls p + 1 > 5"
    and "inFlight p > 0" "\<not> lastMessageCount p < length msgs"
  shows "pausedIdle (fetchesIssued p)
           (fst (step (FetchDone now (FetchData True (Some msgs))) (p, c)))"
proof -
  let ?q = "p\<lparr>inFlight := inFlight p - 1\<rparr>"
  let ?a = "adjustPollingFrequency now
              (?q\<lparr>consecutiveEmptyPolls := consecutiveEmptyPolls ?q + 1\<rparr>)"
  have "fst (step (FetchDone now (FetchData True (Some msgs))) (p, c))
          = rescheduleUnlessPaused ?a"
    using assms(8,9) done_empty [of ?q msgs now c] by simp
  moreover have "pausedIdle (fetchesIssued p) ?a"
    using assms
    by (simp add: pausedIdle_def noTimer_def adjustPollingFrequency_def pausePolling_def)
  ultimately show ?thesis by (simp add: reschedule_pausedIdle)
qed

lemma afterFourEmptyPolls_eq:
  "afterFourEmptyPolls =
     ((initialPoller 0)\<lparr>currentSessionId := Some ''s1'', messagePollingInterval := Some 15000,
                         timerPending := True, consecutiveEmptyPolls := 4, inFlight := 1,
                         fetchesIssued := 5\<rparr>, examplePage)"
  by (simp add: afterFourEmptyPolls_def startedPolling_eq pollCycle_def emptyReply_def
      poller_defs Let_def)

lemma afterFiveEmptyPolls_eq:
  "afterFiveEmptyPolls =
     ((initialPoller 0)\<lparr>currentSessionId := Some ''s1'', messagePollingInterval := Some 15000,
                         timerPending := True, consecutiveEmptyPolls := 5, inFlight := 1,
                         fetchesIssued := 6\<rparr>, examplePage)"
  by (simp add: afterFiveEmptyPolls_def afterFourEmptyPolls_eq emptyReply_def poller_defs Let_def)

text \<open>
  Claim C4, as stated, fails: the thresholds of the source are strict. On a page without
  voice or chat activity for 760000 ms (at least 600000 ms), when the fifth empty poll in
  a row completes, the client is not paused and the next poll is scheduled.
\<close>

theorem no_pause_at_five_empty_polls:
  "\<not> isVoiceActive (fst afterFourEmptyPolls) \<and> \<not> isChatActive (fst afterFourEmptyPolls)
   \<and> 760000 - lastActivity (fst afterFourEmptyPolls) \<ge> 600000
   \<and> consecutiveEmptyPolls (fst (step (FetchDone 760000 emptyReply) afterFourEmptyPolls)) = 5
   \<and> \<not> isPaused (fst (step (FetchDone 760000 emptyReply) afterFourEmptyPolls))
   \<and> timerPending (fst (step (FetchDone 760000 emptyReply) afterFourEmptyPolls))"
  by (simp add: afterFourEmptyPolls_eq emptyReply_def poller_defs Let_def)

text \<open>
  Claim C4, amended. Let the client be active with its timer handle set and no fired timer
  waiting for its inner callback, no voice and no chat flag set, and let an empty poll
  complete more than 600000 ms after the last activity as at least the sixth empty poll in
  a row. Then the client is paused with no poll scheduled, and it stays so, sending no
  further request, through every sequence of events that contains no activity signal (and
  no call of \<open>resumePolling\<close>, \<open>scheduleNextPoll\<close> or \<open>checkForNewMessages\<close> from
  outside). After that, \<open>markUserActivity\<close> and \<open>setVoiceActive(true)\<close> each unpause
  the client and arm the timer at once.
\<close>

theorem idle_pause_until_activity:
  assumes "\<not> isPaused p" "messagePollingInterval p \<noteq> None" "queuedTicks p = 0"
    and "\<not> isVoiceActive p" "\<not> isChatActive p"
    and "now - lastActivity p > 600000" "consecutiveEmptyPolls p + 1 > 5"
    and "inFlight p > 0" "\<not> lastMessageCount p < length msgs"
    and "list_all quietEvent evs"
  shows "pausedIdle (fetchesIssued p)
           (fst (run evs (step (FetchDone now (FetchData True (Some msgs))) (p, c))))
     \<and> \<not> isPaused (markUserActivity t
           (fst (run evs (step (FetchDone now (FetchData True (Some msgs))) (p, c)))))
     \<and> timerPending (markUserActivity t
           (fst (run evs (step (FetchDone now (FetchData True (Some msgs))) (p, c)))))
     \<and> \<not> isPaused (setVoiceActive True t
           (fst (run evs (step (FetchDone now (FetchData True (Some msgs))) (p, c)))))
     \<and> timerPending (setVoiceActive True t
           (fst (run evs (step (FetchDone now (FetchData True (Some msgs))) (p, c)))))"
proof -
  have "pausedIdle (fetchesIssued p)
          (fst (step (FetchDone now (FetchData True (Some msgs))) (p, c)))"
    using assms(1-9) by (rule empty_poll_pauses)
  then have "pausedIdle (fetchesIssued p)
           (fst (run evs (step (FetchDone now (FetchData True (Some msgs))) (p, c))))"
    using assms(10) by (simp add: run_pausedIdle)
  then show ?thesis using activity_resumes by blast
qed

text \<open>An instance: the sixth empty poll of the example page completes at time 775000; a run without activity follows, then \<open>markUserActivity\<close> at time 900000.\<close>

theorem idle_pause_until_activity_witness:
  "\<not> isPaused (fst afterFiveEmptyPolls) \<and> messagePollingInterval (fst afterFiveEmptyPolls) \<noteq> None
   \<and> queuedTicks (fst afterFiveEmptyPolls) = 0
   \<and> \<not> isVoiceActive (fst afterFiveEmptyPolls) \<and> \<not> isChatActive (fst afterFiveEmptyPolls)
   \<and> 775000 - lastActivity (fst afterFiveEmptyPolls) > 600000
   \<and> consecutiveEmptyPolls (fst afterFiveEmptyPolls) + 1 > 5
   \<and> inFlight (fst afterFiveEmptyPolls) > 0
   \<and> \<not> lastMessageCount (fst afterFiveEmptyPolls) < length ([] :: inbound list)
   \<and> list_all quietEvent quietRun
   \<and> pausedIdle 6 (fst (run quietRun (step (FetchDone 775000 emptyReply) afterFiveEmptyPolls)))
   \<and> timerPending (markUserActivity 900000
         (fst (run quietRun (step (FetchDone 775000 emptyReply) afterFiveEmptyPolls))))"
  using idle_pause_until_activity
          [of "fst afterFiveEmptyPolls" 775000 "[]" quietRun "snd afterFiveEmptyPolls" 900000]
  by (simp add: afterFiveEmptyPolls_eq emptyReply_def quietRun_def initialPoller_def)

text \<open>
  Outside the amended claim: when the timer has fired and its inner callback is still
  queued at the moment the poll completes, \<open>pausePolling\<close> sets \<open>isPaused\<close>, and the
  queued callback then sends a request and arms the timer all the same.
\<close>

lemma queued_callback_polls_while_paused:
  "isPaused (fst (run [TimerFires, FetchDone 775000 emptyReply, IdleTick] afterFiveEmptyPolls))
   \<and> timerPending (fst (run [TimerFires, FetchDone 775000 emptyReply, IdleTick] afterFiveEmptyPolls))
   \<and> fetchesIssued (fst (run [TimerFires, FetchDone 775000 emptyReply, IdleTick] afterFiveEmptyPolls))
       = 7"
  by (simp add: afterFiveEmptyPolls_eq emptyReply_def poller_defs Let_def)


section \<open>Properties of the transcript\<close>

lemma sliceLast_small: "length xs \<le> n \<Longrightarrow> sliceLast n xs = xs"
  by (simp add: sliceLast_def)

lemma length_sliceLast: "length (sliceLast n xs) = min n (length xs)"
  by (simp add: sliceLast_def)

lemma sliceLast_append: "sliceLast n (sliceLast n xs @ ys) = sliceLast n (xs @ ys)"
  by (cases "length xs \<le> n") (simp_all add: sliceLast_def add.commute)

lemma sliceLast_nonempty: "xs \<noteq> [] \<Longrightarrow> 0 < n \<Longrightarrow> sliceLast n xs \<noteq> []"
  by (cases xs) (simp_all add: sliceLast_def)

lemma cap_is_sliceLast: "(if length h > 30 then sliceLast 30 h else h) = sliceLast 30 h"
  by (simp add: sliceLast_small)

lemma trim_hello: "trim ''Hallo'' = ''Hallo''"
  by (simp add: trim_def isWhiteSpace_def)

lemma contextLine_nonempty: "contextLine msg \<noteq> []"
  by (simp add: contextLine_def)

lemma joinLines_nonempty: "ls \<noteq> [] \<Longrightarrow> hd ls \<noteq> [] \<Longrightarrow> joinLines ls \<noteq> []"
  by (induction ls rule: joinLines.induct) simp_all

lemma context_nonempty:
  assumes "h \<noteq> []"
  shows "joinLines (map contextLine (sliceLast 30 h)) \<noteq> []"
proof -
  have "sliceLast 30 h \<noteq> []" using assms by (simp add: sliceLast_nonempty)
  then obtain x xs where "sliceLast 30 h = x # xs" by (cases "sliceLast 30 h") auto
  then show ?thesis using joinLines_nonempty [of "map contextLine (x # xs)"]
    by (simp add: contextLine_nonempty)
qed

text \<open>
  Claim C9. The conversation context of an empty (or still undefined) transcript is the
  placeholder \<open>Keine vorherigen Nachrichten\<close>, not the empty string. The context of a
  non-empty transcript is the lines \<open>User: content\<close> or \<open>Assistant: content\<close> of its
  last 30 entries (of all entries when there are at most 30), joined by line feeds. This
  is the text \<open>updateConversationContext\<close> stores and \<open>startVoiceCall\<close> passes on.
\<close>

theorem conversation_context_rendering:
  "conversationContext None = ''Keine vorherigen Nachrichten''
   \<and> conversationContext (Some []) = ''Keine vorherigen Nachrichten''
   \<and> (h \<noteq> [] \<longrightarrow> conversationContext (Some h) = joinLines (map contextLine (sliceLast 30 h)))
   \<and> (h \<noteq> [] \<and> length h \<le> 30 \<longrightarrow> conversationContext (Some h) = joinLines (map contextLine h))
   \<and> contextLine msg = (if role msg = User then ''User'' else ''Assistant'') @ '': '' @ content msg
   \<and> (variableValuesPresent c \<longrightarrow>
        conversation_context (updateConversationContext c) = Some (conversationContext (chatHistory c)))
   \<and> startVoiceCall_context c = conversationContext (chatHistory c)"
  using context_nonempty [of h]
  by (auto simp: conversationContext_def sliceLast_def contextLine_def updateConversationContext_def
      startVoiceCall_context_def Let_def)

text \<open>An instance: a transcript of two entries, and the empty transcript.\<close>

theorem conversation_context_rendering_witness:
  "greeting \<noteq> [] \<and> length greeting \<le> 30
   \<and> variableValuesPresent (examplePage\<lparr>chatHistory := Some greeting\<rparr>)
   \<and> conversationContext (Some greeting) = ''User: Hallo'' @ [CHR 0x0A] @ ''Assistant: Guten Tag''
   \<and> conversation_context (updateConversationContext (examplePage\<lparr>chatHistory := Some greeting\<rparr>))
        = Some (''User: Hallo'' @ [CHR 0x0A] @ ''Assistant: Guten Tag'')
   \<and> conversation_context (updateConversationContext emptyTranscriptPage)
        = Some ''Keine vorherigen Nachrichten''"
  using conversation_context_rendering [where h = greeting and c = "examplePage\<lparr>chatHistory := Some greeting\<rparr>"]
        conversation_context_rendering [where h = greeting and c = emptyTranscriptPage]
  by (simp add: greeting_def chatEntry_def examplePage_def emptyTranscriptPage_def contextLine_def)

lemma storageKey_upd [simp]:
  "storageKey (c\<lparr>chatHistory := h\<rparr>) = storageKey c"
  "storageKey (c\<lparr>localStorage := l\<rparr>) = storageKey c"
  "storageKey (c\<lparr>conversation_context := x\<rparr>) = storageKey c"
  "storageKey (c\<lparr>processedTranscripts := y\<rparr>) = storageKey c"
  "storageKey (c\<lparr>vapiSessionId := z\<rparr>) = storageKey c"
  by (simp_all add: storageKey_def)

lemma load_frame:
  "snd (loadChatHistoryFromStorage now c)
     = c\<lparr>localStorage := localStorage (snd (loadChatHistoryFromStorage now c))\<rparr>"
  by (simp add: loadChatHistoryFromStorage_def Let_def split: option.splits list.splits)

lemma getItem_save:
  "\<not> storageFull c \<Longrightarrow> getItem (storageKey c) (saveChatHistoryToStorage now h c) = Some h"
  by (simp add: getItem_def saveChatHistoryToStorage_def update_conv')

lemma save_fields [simp]:
  "chatHistory (saveChatHistoryToStorage now h c) = chatHistory c"
  "processedTranscripts (saveChatHistoryToStorage now h c) = processedTranscripts c"
  "vapiSessionId (saveChatHistoryToStorage now h c) = vapiSessionId c"
  "sameEnv c0 (saveChatHistoryToStorage now h c) = sameEnv c0 c"
  "storageKey (saveChatHistoryToStorage now h c) = storageKey c"
  by (simp_all add: saveChatHistoryToStorage_def sameEnv_def)

lemma update_fields [simp]:
  "chatHistory (updateConversationContext c) = chatHistory c"
  "localStorage (updateConversationContext c) = localStorage c"
  "processedTranscripts (updateConversationContext c) = processedTranscripts c"
  "vapiSessionId (updateConversationContext c) = vapiSessionId c"
  "sameEnv c0 (updateConversationContext c) = sameEnv c0 c"
  "storageKey (updateConversationContext c) = storageKey c"
  "getItem k (updateConversationContext c) = getItem k c"
  by (simp_all add: updateConversationContext_def sameEnv_def getItem_def)

lemma add_absent: "\<not> chatMessagesPresent c \<Longrightarrow> addChatMessageWithSource now msg sender src c = c"
  by (simp add: addChatMessageWithSource_def)

lemma add_present:
  assumes "chatMessagesPresent c"
  shows "chatHistory (addChatMessageWithSource now msg sender src c)
           = Some (sliceLast 30 (currentHistory now c @ [chatEntry now msg sender src]))"
    and "\<not> storageFull c \<Longrightarrow>
         getItem (storageKey c) (addChatMessageWithSource now msg sender src c)
           = Some (sliceLast 30 (currentHistory now c @ [chatEntry now msg sender src]))"
    and "sameEnv c (addChatMessageWithSource now msg sender src c)"
    and "processedTranscripts (addChatMessageWithSource now msg sender src c) = processedTranscripts c"
    and "vapiSessionId (addChatMessageWithSource now msg sender src c) = vapiSessionId c"
proof -
  obtain h0 c1 where hc: "(case chatHistory c of None \<Rightarrow> loadChatHistoryFromStorage now c
                         | Some h \<Rightarrow> (h, c)) = (h0, c1)"
    by (cases "case chatHistory c of None \<Rightarrow> loadChatHistoryFromStorage now c | Some h \<Rightarrow> (h, c)")
  have h0: "h0 = currentHistory now c"
    using hc by (auto simp: currentHistory_def split: option.splits)
  obtain l where c1: "c1 = c\<lparr>localStorage := l\<rparr>"
  proof (cases "chatHistory c")
    case None
    then have "c1 = snd (loadChatHistoryFromStorage now c)" using hc by simp
    then show ?thesis using load_frame [of now c] that by metis
  next
    case (Some h)
    then have "c1 = c\<lparr>localStorage := localStorage c\<rparr>" using hc by simp
    then show ?thesis by (rule that)
  qed
  let ?h2 = "sliceLast 30 (h0 @ [chatEntry now msg sender src])"
  have eq: "addChatMessageWithSource now msg sender src c
        = updateConversationContext (saveChatHistoryToStorage now ?h2 (c1\<lparr>chatHistory := Some ?h2\<rparr>))"
    using assms hc
    by (simp add: addChatMessageWithSource_def Let_def chatEntry_def cap_is_sliceLast
        del: append.simps)
  show "chatHistory (addChatMessageWithSource now msg sender src c)
           = Some (sliceLast 30 (currentHistory now c @ [chatEntry now msg sender src]))"
    unfolding eq by (simp add: h0)
  show "getItem (storageKey c) (addChatMessageWithSource now msg sender src c)
           = Some (sliceLast 30 (currentHistory now c @ [chatEntry now msg sender src]))"
    if "\<not> storageFull c"
  proof -
    have "\<not> storageFull (c1\<lparr>chatHistory := Some ?h2\<rparr>)" using that c1 by simp
    from getItem_save [OF this, of now ?h2] show ?thesis
      unfolding eq by (simp add: h0 c1)
  qed
  have "sameEnv c (c1\<lparr>chatHistory := Some ?h2\<rparr>)" by (simp add: c1 sameEnv_def)
  then show "sameEnv c (addChatMessageWithSource now msg sender src c)"
    unfolding eq by simp
  show "processedTranscripts (addChatMessageWithSource now msg sender src c) = processedTranscripts c"
    unfolding eq by (simp add: c1)
  show "vapiSessionId (addChatMessageWithSource now msg sender src c) = vapiSessionId c"
    unfolding eq by (simp add: c1)
qed

lemma currentHistory_Some [simp]: "chatHistory c = Some h \<Longrightarrow> currentHistory now c = h"
  by (simp add: currentHistory_def)

lemma voice_dropped: "voiceDropped m c \<Longrightarrow> handleVoiceTranscript now m c = c"
  by (auto simp: voiceDropped_def handleVoiceTranscript_def Let_def)

lemma voice_blank:
  "\<not> voiceDropped m c \<Longrightarrow> trim (transcript m) = [] \<Longrightarrow>
   handleVoiceTranscript now m c
     = c\<lparr>processedTranscripts := setAdd (voiceKey m) (processedTranscripts c)\<rparr>"
  by (simp add: voiceDropped_def handleVoiceTranscript_def Let_def voiceKey_def)

lemma load_fields [simp]:
  "chatHistory (snd (loadChatHistoryFromStorage now c)) = chatHistory c"
  "processedTranscripts (snd (loadChatHistoryFromStorage now c)) = processedTranscripts c"
  "vapiSessionId (snd (loadChatHistoryFromStorage now c)) = vapiSessionId c"
  "storageKey (snd (loadChatHistoryFromStorage now c)) = storageKey c"
  "sameEnv c0 (snd (loadChatHistoryFromStorage now c)) = sameEnv c0 c"
  "storageFull (snd (loadChatHistoryFromStorage now c)) = storageFull c"
  "chatMessagesPresent (snd (loadChatHistoryFromStorage now c)) = chatMessagesPresent c"
  "chatFunctionsLoaded (snd (loadChatHistoryFromStorage now c)) = chatFunctionsLoaded c"
  by (subst load_frame, simp add: sameEnv_def storageKey_def)+

lemma sameEnv_refl [simp]: "sameEnv c c"
  by (simp add: sameEnv_def)

lemma sameEnv_upd [simp]:
  "sameEnv c0 (c\<lparr>chatHistory := h\<rparr>) = sameEnv c0 c"
  "sameEnv c0 (c\<lparr>processedTranscripts := y\<rparr>) = sameEnv c0 c"
  "sameEnv c0 (c\<lparr>vapiSessionId := z\<rparr>) = sameEnv c0 c"
  "sameEnv c0 (c\<lparr>localStorage := l\<rparr>) = sameEnv c0 c"
  by (simp_all add: sameEnv_def)

lemma sameEnv_fields:
  "sameEnv c c' \<Longrightarrow> storageFull c' = storageFull c"
  "sameEnv c c' \<Longrightarrow> chatMessagesPresent c' = chatMessagesPresent c"
  "sameEnv c c' \<Longrightarrow> chatFunctionsLoaded c' = chatFunctionsLoaded c"
  "sameEnv c c' \<Longrightarrow> storageKey c' = storageKey c"
  by (simp_all add: sameEnv_def storageKey_def)

lemma currentHistory_processed [simp]:
  "currentHistory now (c\<lparr>processedTranscripts := y\<rparr>) = currentHistory now c"
proof -
  have "fst (loadChatHistoryFromStorage now (c\<lparr>processedTranscripts := y\<rparr>))
         = fst (loadChatHistoryFromStorage now c)"
    by (simp add: loadChatHistoryFromStorage_def getItem_def Let_def split: option.splits list.splits)
  then show ?thesis by (simp add: currentHistory_def split: option.splits)
qed

lemma voicePushed_fields:
  "chatHistory (voicePushed now m c) = Some (currentHistory now c @ [voiceEntry now m])"
  "processedTranscripts (voicePushed now m c) = setAdd (voiceKey m) (processedTranscripts c)"
  "vapiSessionId (voicePushed now m c) = vapiSessionId c"
  "sameEnv c (voicePushed now m c)"
  by (simp_all add: voicePushed_def Let_def split: option.splits)

lemma voicePushed_stored:
  "\<not> storageFull c \<Longrightarrow>
   getItem (storageKey c) (voicePushed now m c) = Some (currentHistory now c @ [voiceEntry now m])"
proof -
  assume nf: "\<not> storageFull c"
  let ?c1 = "c\<lparr>processedTranscripts := setAdd (voiceKey m) (processedTranscripts c)\<rparr>"
  let ?c2 = "case chatHistory ?c1 of None \<Rightarrow> snd (loadChatHistoryFromStorage now ?c1) | Some h \<Rightarrow> ?c1"
  let ?h1 = "currentHistory now ?c1 @ [voiceEntry now m]"
  have "\<not> storageFull (?c2\<lparr>chatHistory := Some ?h1\<rparr>)" using nf by (simp split: option.splits)
  moreover have "storageKey (?c2\<lparr>chatHistory := Some ?h1\<rparr>) = storageKey c" by (simp split: option.splits)
  ultimately show ?thesis
    using getItem_save [of "?c2\<lparr>chatHistory := Some ?h1\<rparr>" now ?h1]
    by (simp add: voicePushed_def Let_def)
qed

lemma voice_accepted:
  assumes "\<not> voiceDropped m c" "trim (transcript m) \<noteq> []" "chatFunctionsLoaded c"
  shows "handleVoiceTranscript now m c =
     (let c5 = addChatMessageWithSource now (transcript m) (voiceSender m) ''voice''
                 (voicePushed now m c)
      in if vsessionId m \<noteq> [] then c5\<lparr>vapiSessionId := Some (vsessionId m)\<rparr> else c5)"
proof -
  let ?c1 = "c\<lparr>processedTranscripts := setAdd (voiceKey m) (processedTranscripts c)\<rparr>"
  obtain h0 c2 where hc: "(case chatHistory ?c1 of
                  None \<Rightarrow> if chatFunctionsLoaded ?c1 then loadChatHistoryFromStorage now ?c1 else ([], ?c1)
                | Some h \<Rightarrow> (h, ?c1)) = (h0, c2)"
    by (cases "case chatHistory ?c1 of
                  None \<Rightarrow> if chatFunctionsLoaded ?c1 then loadChatHistoryFromStorage now ?c1 else ([], ?c1)
                | Some h \<Rightarrow> (h, ?c1)")
  have h0: "h0 = currentHistory now ?c1"
    using hc assms(3) by (auto simp: currentHistory_def split: option.splits)
  have c2: "c2 = (case chatHistory ?c1 of None \<Rightarrow> snd (loadChatHistoryFromStorage now ?c1) | Some h \<Rightarrow> ?c1)"
    using hc assms(3) by (auto split: option.splits)
  have l2: "chatFunctionsLoaded c2" using assms(3) unfolding c2 by (simp split: option.splits)
  have vp: "voicePushed now m c = saveChatHistoryToStorage now (h0 @ [voiceEntry now m])
                (c2\<lparr>chatHistory := Some (h0 @ [voiceEntry now m])\<rparr>)"
    unfolding voicePushed_def Let_def h0 c2 by simp
  have l4: "chatFunctionsLoaded (voicePushed now m c)"
    using voicePushed_fields(4) [of c now m] assms(3) by (simp add: sameEnv_def)
  show ?thesis
    using assms(1,2) hc l2 l4 [unfolded vp]
    by (simp add: handleVoiceTranscript_def Let_def voiceDropped_def voiceKey_def [symmetric]
        voiceEntry_def [symmetric] voiceSender_def [symmetric] vp del: append.simps)
qed

lemma trim_Nil [simp]: "trim [] = []"
  by (simp add: trim_def)

lemma getItem_upd [simp]:
  "getItem k (c\<lparr>vapiSessionId := z\<rparr>) = getItem k c"
  "getItem k (c\<lparr>processedTranscripts := y\<rparr>) = getItem k c"
  "getItem k (c\<lparr>chatHistory := h\<rparr>) = getItem k c"
  by (simp_all add: getItem_def)

lemma voiceEntry_chatEntry:
  "role (voiceEntry now m) = role (chatEntry now' (transcript m) (voiceSender m) src)"
  "content (voiceEntry now m) = content (chatEntry now' (transcript m) (voiceSender m) src)"
  by (simp_all add: voiceEntry_def chatEntry_def voiceSender_def)

lemma voice_appends_two:
  assumes "\<not> voiceDropped m c" "trim (transcript m) \<noteq> []"
    and "chatMessagesPresent c" "chatFunctionsLoaded c"
  shows "chatHistory (handleVoiceTranscript now m c)
           = Some (sliceLast 30 (currentHistory now c
                     @ [voiceEntry now m, chatEntry now (transcript m) (voiceSender m) ''voice'']))"
    and "\<not> storageFull c \<Longrightarrow>
         getItem (storageKey c) (handleVoiceTranscript now m c)
           = Some (sliceLast 30 (currentHistory now c
                     @ [voiceEntry now m, chatEntry now (transcript m) (voiceSender m) ''voice'']))"
    and "sameEnv c (handleVoiceTranscript now m c)"
    and "processedTranscripts (handleVoiceTranscript now m c)
           = setAdd (voiceKey m) (processedTranscripts c)"
proof -
  let ?v = "voicePushed now m c"
  let ?a = "addChatMessageWithSource now (transcript m) (voiceSender m) ''voice'' ?v"
  have env: "sameEnv c ?v" by (rule voicePushed_fields)
  have pres: "chatMessagesPresent ?v" using env assms(3) by (simp add: sameEnv_fields)
  have cur: "currentHistory now ?v = currentHistory now c @ [voiceEntry now m]"
    by (simp add: voicePushed_fields)
  have hv: "handleVoiceTranscript now m c =
              (if vsessionId m \<noteq> [] then ?a\<lparr>vapiSessionId := Some (vsessionId m)\<rparr> else ?a)"
    using voice_accepted [OF assms(1,2,4), of now] by (simp add: Let_def)
  show "chatHistory (handleVoiceTranscript now m c)
           = Some (sliceLast 30 (currentHistory now c
                     @ [voiceEntry now m, chatEntry now (transcript m) (voiceSender m) ''voice'']))"
    using add_present(1) [OF pres, of now "transcript m" "voiceSender m" "''voice''"]
    by (simp add: hv cur)
  show "getItem (storageKey c) (handleVoiceTranscript now m c)
           = Some (sliceLast 30 (currentHistory now c
                     @ [voiceEntry now m, chatEntry now (transcript m) (voiceSender m) ''voice'']))"
    if "\<not> storageFull c"
  proof -
    have "\<not> storageFull ?v" using env that by (simp add: sameEnv_fields)
    from add_present(2) [OF pres this, of now "transcript m" "voiceSender m" "''voice''"]
    show ?thesis using env by (simp add: hv cur sameEnv_fields)
  qed
  have "sameEnv ?v ?a" using pres by (rule add_present(3))
  then have "sameEnv c ?a" using env by (simp add: sameEnv_def)
  then show "sameEnv c (handleVoiceTranscript now m c)" by (simp add: hv)
  show "processedTranscripts (handleVoiceTranscript now m c)
           = setAdd (voiceKey m) (processedTranscripts c)"
    using add_present(4) [OF pres, of now "transcript m" "voiceSender m" "''voice''"]
    by (simp add: hv voicePushed_fields)
qed

lemma load_full:
  "storageFull c \<Longrightarrow> localStorage (snd (loadChatHistoryFromStorage now c)) = localStorage c"
  by (simp add: loadChatHistoryFromStorage_def Let_def split: option.splits list.splits)

lemma add_full:
  assumes "storageFull c"
  shows "localStorage (addChatMessageWithSource now msg sender src c) = localStorage c"
proof (cases "chatHistory c")
  case None
  obtain h0 c0 where l: "loadChatHistoryFromStorage now c = (h0, c0)"
    by (cases "loadChatHistoryFromStorage now c")
  have "storageFull c0" "localStorage c0 = localStorage c"
    using load_fields(6) [of now c] load_full [OF assms, of now] assms by (simp_all add: l)
  then show ?thesis using None l
    by (simp add: addChatMessageWithSource_def Let_def saveChatHistoryToStorage_def
        updateConversationContext_def)
next
  case (Some h)
  then show ?thesis using assms
    by (simp add: addChatMessageWithSource_def Let_def saveChatHistoryToStorage_def
        updateConversationContext_def)
qed

lemma voicePushed_full:
  assumes "storageFull c"
  shows "localStorage (voicePushed now m c) = localStorage c"
proof -
  let ?c1 = "c\<lparr>processedTranscripts := setAdd (voiceKey m) (processedTranscripts c)\<rparr>"
  have f: "storageFull ?c1" using assms by simp
  show ?thesis using load_full [OF f, of now] assms
    by (simp add: voicePushed_def Let_def saveChatHistoryToStorage_def split: option.splits)
qed

lemma voice_storage_full:
  assumes "\<not> voiceDropped m c" "trim (transcript m) \<noteq> []" "chatFunctionsLoaded c"
    and "storageFull c"
  shows "localStorage (handleVoiceTranscript now m c) = localStorage c"
proof -
  have "storageFull (voicePushed now m c)"
    using voicePushed_fields(4) [of c now m] assms(4) by (simp add: sameEnv_fields)
  then have "localStorage (addChatMessageWithSource now (transcript m) (voiceSender m) ''voice''
                (voicePushed now m c)) = localStorage c"
    using add_full [of "voicePushed now m c"] voicePushed_full [OF assms(4)] by simp
  then show ?thesis
    using voice_accepted [OF assms(1,2,3), of now] by (simp add: Let_def)
qed

lemma currentHistory_stored:
  "chatHistory c = None \<Longrightarrow> getItem (storageKey c) c = Some h \<Longrightarrow> currentHistory now c = h"
  by (simp add: currentHistory_def loadChatHistoryFromStorage_def)

lemma currentHistory_nothing_stored:
  "chatHistory c = None \<Longrightarrow> getItem (storageKey c) c = None \<Longrightarrow> chatHistoryKeys c = [] \<Longrightarrow>
   currentHistory now c = []"
  by (simp add: currentHistory_def loadChatHistoryFromStorage_def chatHistoryKeys_def sortBy_def)




lemma splitOn_no_sep: "sep \<notin> set s \<Longrightarrow> splitOn sep s = [s]"
  by (induction s) auto

lemma splitOn_append:
  "sep \<notin> set a \<Longrightarrow> splitOn sep (a @ sep # b) = a # splitOn sep b"
  by (induction a) auto

lemma split_voiceKey:
  assumes "CHR ''-'' \<notin> set (vrole m)" "CHR ''-'' \<notin> set (trim (transcript m))"
  shows "take 2 (splitOn CHR ''-'' (voiceKey m)) = [vrole m, trim (transcript m)]"
  using splitOn_append [OF assms(1), of "trim (transcript m)"] splitOn_no_sep [OF assms(2)]
  by (simp add: voiceKey_def)

lemma recentlyProcessed_setAdd:
  assumes "CHR ''-'' \<notin> set (vrole m)" "CHR ''-'' \<notin> set (trim (transcript m))"
  shows "recentlyProcessed m (setAdd (voiceKey m) ids)"
proof -
  have "voiceKey m \<in> set (setAdd (voiceKey m) ids)" by (simp add: setAdd_def)
  then show ?thesis
    using split_voiceKey [OF assms]
    by (auto simp: recentlyProcessed_def list_ex_iff intro!: bexI [of _ "voiceKey m"])
qed

lemma add_processed:
  "processedTranscripts (addChatMessageWithSource now msg sender src c) = processedTranscripts c"
  by (cases "chatMessagesPresent c") (simp_all add: add_absent add_present(4))

lemma voice_processed:
  assumes "\<not> voiceDropped m c"
  shows "processedTranscripts (handleVoiceTranscript now m c)
           = setAdd (voiceKey m) (processedTranscripts c)"
proof (cases "trim (transcript m) = []")
  case True
  then show ?thesis using assms by (simp add: voice_blank)
next
  case False
  show ?thesis
  proof (cases "chatFunctionsLoaded c")
    case True
    then show ?thesis
      using voice_accepted [OF assms False True, of now]
      by (simp add: Let_def add_processed voicePushed_fields)
  next
    case nl: False
    then show ?thesis using assms False
      by (simp add: handleVoiceTranscript_def voiceDropped_def Let_def voiceKey_def
          split: option.splits)
  qed
qed

lemma voice_repeat_dropped:
  assumes "CHR ''-'' \<notin> set (vrole m)" "CHR ''-'' \<notin> set (trim (transcript m))"
  shows "handleVoiceTranscript now' m (handleVoiceTranscript now m c) = handleVoiceTranscript now m c"
proof (cases "voiceDropped m c")
  case True
  then show ?thesis by (simp add: voice_dropped)
next
  case False
  have "recentlyProcessed m (processedTranscripts (handleVoiceTranscript now m c))"
    using recentlyProcessed_setAdd [OF assms] by (simp add: voice_processed [OF False])
  then show ?thesis by (simp add: voice_dropped voiceDropped_def)
qed

lemma display_loaded:
  "chatFunctionsLoaded c \<Longrightarrow>
   displayNewMessage now d c
     = addChatMessageWithSource now (inboundContent d) (inboundRole d) (inboundSource d) c"
  by (simp add: displayNewMessage_def Let_def inboundContent_def inboundRole_def inboundSource_def)

lemma display_twice:
  assumes "chatFunctionsLoaded c" "chatMessagesPresent c"
  shows "chatHistory (displayNewMessage now' d (displayNewMessage now d c))
           = Some (sliceLast 30 (currentHistory now c
                @ [chatEntry now (inboundContent d) (inboundRole d) (inboundSource d),
                   chatEntry now' (inboundContent d) (inboundRole d) (inboundSource d)]))"
proof -
  let ?a = "addChatMessageWithSource now (inboundContent d) (inboundRole d) (inboundSource d) c"
  have env: "sameEnv c ?a" using assms(2) by (rule add_present(3))
  have 1: "chatHistory ?a = Some (sliceLast 30 (currentHistory now c
              @ [chatEntry now (inboundContent d) (inboundRole d) (inboundSource d)]))"
    using assms(2) by (rule add_present(1))
  have l: "chatFunctionsLoaded ?a" "chatMessagesPresent ?a"
    using env assms by (simp_all add: sameEnv_fields)
  have "chatHistory (addChatMessageWithSource now' (inboundContent d) (inboundRole d) (inboundSource d) ?a)
         = Some (sliceLast 30 (currentHistory now' ?a
              @ [chatEntry now' (inboundContent d) (inboundRole d) (inboundSource d)]))"
    using l(2) by (rule add_present(1))
  then show ?thesis
    using sliceLast_append [of 30 "currentHistory now c
              @ [chatEntry now (inboundContent d) (inboundRole d) (inboundSource d)]"
              "[chatEntry now' (inboundContent d) (inboundRole d) (inboundSource d)]"]
    by (simp add: display_loaded assms(1) l(1) 1)
qed

text \<open>
  Claim C3, as stated, fails. The same message delivered twice within one second through
  \<open>displayNewMessage\<close> is appended twice. The same voice transcript delivered twice
  leaves two entries as well, both appended by the first delivery. Delivered once as a
  voice transcript and once through \<open>displayNewMessage\<close>, it leaves three.
\<close>

theorem duplicate_delivery_appended:
  "chatHistory (displayNewMessage 2000 confirmation (displayNewMessage 1000 confirmation emptyTranscriptPage))
       = Some [chatEntry 1000 ''Termin bestaetigt'' ''assistant'' ''voice-function'',
               chatEntry 2000 ''Termin bestaetigt'' ''assistant'' ''voice-function'']
   \<and> chatHistory (handleVoiceTranscript 2000 helloVoice (handleVoiceTranscript 1000 helloVoice emptyTranscriptPage))
       = Some [voiceEntry 1000 helloVoice, chatEntry 1000 ''Hallo'' ''user'' ''voice'']
   \<and> chatHistory (displayNewMessage 2000 \<lparr>in_content = ''Hallo'', in_role = ''user'', in_source = ''voice''\<rparr>
         (handleVoiceTranscript 1000 helloVoice emptyTranscriptPage))
       = Some [voiceEntry 1000 helloVoice, chatEntry 1000 ''Hallo'' ''user'' ''voice'',
               chatEntry 2000 ''Hallo'' ''user'' ''voice'']"
proof -
  have e: "chatFunctionsLoaded emptyTranscriptPage" "chatMessagesPresent emptyTranscriptPage"
      "chatHistory emptyTranscriptPage = Some []" "processedTranscripts emptyTranscriptPage = []"
    by (simp_all add: emptyTranscriptPage_def examplePage_def)
  have nd: "\<not> voiceDropped helloVoice emptyTranscriptPage"
    by (simp add: voiceDropped_def e helloVoice_def recentlyProcessed_def)
  have t: "trim (transcript helloVoice) \<noteq> []" by (simp add: helloVoice_def trim_hello)
  have h: "CHR ''-'' \<notin> set (vrole helloVoice)" "CHR ''-'' \<notin> set (trim (transcript helloVoice))"
    by (simp_all add: helloVoice_def trim_hello)
  have v1: "chatHistory (handleVoiceTranscript 1000 helloVoice emptyTranscriptPage)
        = Some [voiceEntry 1000 helloVoice, chatEntry 1000 ''Hallo'' ''user'' ''voice'']"
    using voice_appends_two(1) [OF nd t e(2) e(1), of 1000]
    by (simp add: e sliceLast_def) (simp add: helloVoice_def voiceSender_def)
  have env: "sameEnv emptyTranscriptPage (handleVoiceTranscript 1000 helloVoice emptyTranscriptPage)"
    using voice_appends_two(3) [OF nd t e(2) e(1)] .
  have a: "chatHistory (displayNewMessage 2000 confirmation (displayNewMessage 1000 confirmation emptyTranscriptPage))
       = Some [chatEntry 1000 ''Termin bestaetigt'' ''assistant'' ''voice-function'',
               chatEntry 2000 ''Termin bestaetigt'' ''assistant'' ''voice-function'']"
    using display_twice [OF e(1,2), of 2000 confirmation 1000]
    by (simp add: e sliceLast_def confirmation_def inboundContent_def inboundRole_def inboundSource_def)
  have b: "chatHistory (handleVoiceTranscript 2000 helloVoice (handleVoiceTranscript 1000 helloVoice emptyTranscriptPage))
       = Some [voiceEntry 1000 helloVoice, chatEntry 1000 ''Hallo'' ''user'' ''voice'']"
    using voice_repeat_dropped [OF h] v1 by simp
  have c: "chatHistory (displayNewMessage 2000 \<lparr>in_content = ''Hallo'', in_role = ''user'', in_source = ''voice''\<rparr>
         (handleVoiceTranscript 1000 helloVoice emptyTranscriptPage))
       = Some [voiceEntry 1000 helloVoice, chatEntry 1000 ''Hallo'' ''user'' ''voice'',
               chatEntry 2000 ''Hallo'' ''user'' ''voice'']"
    using env e add_present(1) [of "handleVoiceTranscript 1000 helloVoice emptyTranscriptPage" 2000 "''Hallo''" "''user''" "''voice''"] v1
    by (simp add: display_loaded sameEnv_fields inboundContent_def inboundRole_def inboundSource_def sliceLast_def)
  from a b c show ?thesis by simp
qed

text \<open>
  Claim C3, amended. A second delivery of the same voice transcript through
  \<open>handleVoiceTranscript\<close>, before the key of the first has been deleted from
  \<open>processedTranscripts\<close>, changes nothing, provided neither the role nor the trimmed
  text contains a hyphen. \<open>displayNewMessage\<close> has no duplicate test: on a page with the
  chat container and the chat functions, delivering a message twice appends two entries.
\<close>

theorem repeated_delivery:
  "(CHR ''-'' \<notin> set (vrole m) \<and> CHR ''-'' \<notin> set (trim (transcript m)) \<longrightarrow>
      handleVoiceTranscript now' m (handleVoiceTranscript now m c) = handleVoiceTranscript now m c)
   \<and> (chatFunctionsLoaded c \<and> chatMessagesPresent c \<longrightarrow>
      chatHistory (displayNewMessage now' d (displayNewMessage now d c))
           = Some (sliceLast 30 (currentHistory now c
                @ [chatEntry now (inboundContent d) (inboundRole d) (inboundSource d),
                   chatEntry now' (inboundContent d) (inboundRole d) (inboundSource d)])))"
  using voice_repeat_dropped [of m now' now c] display_twice [of c now' d now] by blast

text \<open>An instance: the voice transcript \<open>Hallo\<close> delivered at times 1000 and 2000, and an inbox message delivered at times 1000 and 2000.\<close>

theorem repeated_delivery_witness:
  "CHR ''-'' \<notin> set (vrole helloVoice) \<and> CHR ''-'' \<notin> set (trim (transcript helloVoice))
   \<and> handleVoiceTranscript 2000 helloVoice (handleVoiceTranscript 1000 helloVoice emptyTranscriptPage)
       = handleVoiceTranscript 1000 helloVoice emptyTranscriptPage
   \<and> chatFunctionsLoaded emptyTranscriptPage \<and> chatMessagesPresent emptyTranscriptPage
   \<and> chatHistory (displayNewMessage 2000 confirmation (displayNewMessage 1000 confirmation emptyTranscriptPage))
       = Some [chatEntry 1000 ''Termin bestaetigt'' ''assistant'' ''voice-function'',
               chatEntry 2000 ''Termin bestaetigt'' ''assistant'' ''voice-function'']"
  using repeated_delivery [of helloVoice 2000 1000 emptyTranscriptPage confirmation]
  by (simp add: helloVoice_def emptyTranscriptPage_def examplePage_def trim_hello confirmation_def
     inboundContent_def inboundRole_def inboundSource_def sliceLast_def)

subsection \<open>Runs of appends\<close>

lemma chatReady_sameEnv: "sameEnv c c' \<Longrightarrow> chatReady c' = chatReady c"
  by (simp add: chatReady_def sameEnv_def)

lemma applyOp_step:
  assumes "chatReady c" "chatHistory c = Some h"
  shows "chatHistory (applyOp op c)
           = Some (if pushed op c = [] then h else sliceLast 30 (h @ pushed op c))"
    and "getItem (storageKey c) (applyOp op c)
           = (if pushed op c = [] then getItem (storageKey c) c
              else Some (sliceLast 30 (h @ pushed op c)))"
    and "sameEnv c (applyOp op c)"
proof -
  have r: "chatMessagesPresent c" "chatFunctionsLoaded c" "\<not> storageFull c"
    using assms(1) by (simp_all add: chatReady_def)
  have "chatHistory (applyOp op c)
           = Some (if pushed op c = [] then h else sliceLast 30 (h @ pushed op c))
      \<and> getItem (storageKey c) (applyOp op c)
           = (if pushed op c = [] then getItem (storageKey c) c
              else Some (sliceLast 30 (h @ pushed op c)))
      \<and> sameEnv c (applyOp op c)"
  proof (cases op)
    case (ChatAppend now msg sender src)
    then show ?thesis
      using add_present(1,2,3) [OF r(1), of now msg sender src] r(3) assms(2) by simp
  next
    case (VoiceAppend now m)
    show ?thesis
    proof (cases "voiceDropped m c")
      case True
      then show ?thesis using VoiceAppend assms(2) by (simp add: voice_dropped)
    next
      case nd: False
      show ?thesis
      proof (cases "trim (transcript m) = []")
        case True
        then show ?thesis using VoiceAppend assms(2) nd by (simp add: voice_blank)
      next
        case False
        then show ?thesis
          using VoiceAppend assms(2) nd r(3) voice_appends_two(1,2,3) [OF nd False r(1,2), of now]
          by simp
      qed
    qed
  qed
  then show "chatHistory (applyOp op c)
           = Some (if pushed op c = [] then h else sliceLast 30 (h @ pushed op c))"
    and "getItem (storageKey c) (applyOp op c)
           = (if pushed op c = [] then getItem (storageKey c) c
              else Some (sliceLast 30 (h @ pushed op c)))"
    and "sameEnv c (applyOp op c)" by simp_all
qed

lemma applyOps_history:
  "chatReady c \<Longrightarrow> chatHistory c = Some h \<Longrightarrow>
   chatHistory (applyOps ops c)
     = Some (if pushedAll ops c = [] then h else sliceLast 30 (h @ pushedAll ops c))"
proof (induction ops arbitrary: c h)
  case Nil
  then show ?case by simp
next
  case (Cons op ops)
  let ?c = "applyOp op c"
  let ?h = "if pushed op c = [] then h else sliceLast 30 (h @ pushed op c)"
  have 1: "chatHistory ?c = Some ?h" using Cons.prems by (rule applyOp_step(1))
  have 2: "chatReady ?c"
    using applyOp_step(3) [OF Cons.prems, of op] Cons.prems(1) by (simp add: chatReady_sameEnv)
  have "chatHistory (applyOps ops ?c)
     = Some (if pushedAll ops ?c = [] then ?h else sliceLast 30 (?h @ pushedAll ops ?c))"
    using 2 1 by (rule Cons.IH)
  then show ?case by (simp add: sliceLast_append)
qed

lemma applyOps_synced:
  "chatReady c \<Longrightarrow> chatHistory c = Some h \<Longrightarrow> getItem (storageKey c) c = Some h \<Longrightarrow>
   getItem (storageKey c) (applyOps ops c) = chatHistory (applyOps ops c)"
proof (induction ops arbitrary: c h)
  case Nil
  then show ?case by simp
next
  case (Cons op ops)
  let ?c = "applyOp op c"
  let ?h = "if pushed op c = [] then h else sliceLast 30 (h @ pushed op c)"
  have env: "sameEnv c ?c" using Cons.prems(1,2) by (rule applyOp_step(3))
  have 1: "chatHistory ?c = Some ?h" using Cons.prems(1,2) by (rule applyOp_step(1))
  have 2: "chatReady ?c" using env Cons.prems(1) by (simp add: chatReady_sameEnv)
  have 3: "getItem (storageKey ?c) ?c = Some ?h"
    using applyOp_step(2) [OF Cons.prems(1,2), of op] Cons.prems(3) env
    by (simp add: sameEnv_fields)
  have "getItem (storageKey ?c) (applyOps ops ?c) = chatHistory (applyOps ops ?c)"
    using 2 1 3 by (rule Cons.IH)
  then show ?case using env by (simp add: sameEnv_fields)
qed

lemma applyOps_stored:
  "chatReady c \<Longrightarrow> chatHistory c = Some h \<Longrightarrow> pushedAll ops c \<noteq> [] \<Longrightarrow>
   getItem (storageKey c) (applyOps ops c) = chatHistory (applyOps ops c)"
proof (induction ops arbitrary: c h)
  case Nil
  then show ?case by simp
next
  case (Cons op ops)
  let ?c = "applyOp op c"
  let ?h = "if pushed op c = [] then h else sliceLast 30 (h @ pushed op c)"
  have env: "sameEnv c ?c" using Cons.prems(1,2) by (rule applyOp_step(3))
  have 1: "chatHistory ?c = Some ?h" using Cons.prems(1,2) by (rule applyOp_step(1))
  have 2: "chatReady ?c" using env Cons.prems(1) by (simp add: chatReady_sameEnv)
  have k: "storageKey ?c = storageKey c" using env by (simp add: sameEnv_fields)
  show ?case
  proof (cases "pushed op c = []")
    case True
    then have "pushedAll ops ?c \<noteq> []" using Cons.prems(3) by simp
    with 2 1 have "getItem (storageKey ?c) (applyOps ops ?c) = chatHistory (applyOps ops ?c)"
      by (rule Cons.IH)
    then show ?thesis by (simp add: k)
  next
    case False
    then have "getItem (storageKey ?c) ?c = Some ?h"
      using applyOp_step(2) [OF Cons.prems(1,2), of op] by (simp add: k)
    with 2 1 have "getItem (storageKey ?c) (applyOps ops ?c) = chatHistory (applyOps ops ?c)"
      by (rule applyOps_synced)
    then show ?thesis by (simp add: k)
  qed
qed

text \<open>
  Claim C2, amended. On a page with the chat container, the chat functions and a storage
  that takes the write, starting from a chat history \<open>h\<close> in memory: after a run of
  appends (\<open>addChatMessageWithSource\<close> and \<open>handleVoiceTranscript\<close> in any order) that
  added at least one entry, the chat history in memory and the stored item are both the
  last 30 of \<open>h\<close> followed by the added entries in the order of their addition, so
  at most 30 entries. A run that added nothing leaves the history as it was.
\<close>

theorem transcript_capped:
  assumes "chatReady c" "chatHistory c = Some h"
  shows "(pushedAll ops c = [] \<longrightarrow> chatHistory (applyOps ops c) = Some h)
     \<and> (pushedAll ops c \<noteq> [] \<longrightarrow>
          chatHistory (applyOps ops c) = Some (sliceLast 30 (h @ pushedAll ops c))
          \<and> getItem (storageKey c) (applyOps ops c) = Some (sliceLast 30 (h @ pushedAll ops c))
          \<and> length (sliceLast 30 (h @ pushedAll ops c)) \<le> 30)"
  using applyOps_history [OF assms, of ops] applyOps_stored [OF assms, of ops]
  by (simp add: length_sliceLast)

lemma voice_without_container:
  assumes "\<not> voiceDropped m c" "trim (transcript m) \<noteq> []" "chatFunctionsLoaded c"
    and "\<not> chatMessagesPresent c" "\<not> storageFull c"
  shows "chatHistory (handleVoiceTranscript now m c) = Some (currentHistory now c @ [voiceEntry now m])"
    and "getItem (storageKey c) (handleVoiceTranscript now m c)
           = Some (currentHistory now c @ [voiceEntry now m])"
proof -
  have "\<not> chatMessagesPresent (voicePushed now m c)"
    using voicePushed_fields(4) [of c now m] assms(4) by (simp add: sameEnv_fields)
  then have hv: "handleVoiceTranscript now m c =
      (if vsessionId m \<noteq> [] then (voicePushed now m c)\<lparr>vapiSessionId := Some (vsessionId m)\<rparr>
       else voicePushed now m c)"
    using voice_accepted [OF assms(1,2,3), of now] by (simp add: Let_def add_absent)
  show "chatHistory (handleVoiceTranscript now m c) = Some (currentHistory now c @ [voiceEntry now m])"
    by (simp add: hv voicePushed_fields)
  show "getItem (storageKey c) (handleVoiceTranscript now m c)
           = Some (currentHistory now c @ [voiceEntry now m])"
    using voicePushed_stored [OF assms(5), of now m] by (simp add: hv)
qed

lemma helloVoice_facts:
  "vrole helloVoice = ''user''" "transcript helloVoice = ''Hallo''"
  "trim (transcript helloVoice) = ''Hallo''" "voiceSender helloVoice = ''user''"
  "voiceKey helloVoice = ''user-Hallo''"
  by (simp_all add: helloVoice_def trim_def isWhiteSpace_def voiceSender_def voiceKey_def)

lemma helloVoice_fresh: "processedTranscripts c = [] \<Longrightarrow> \<not> voiceDropped helloVoice c"
  by (simp add: voiceDropped_def recentlyProcessed_def helloVoice_facts)

text \<open>
  Claim C2, as stated, fails. When \<open>setItem\<close> throws, the entry appended by
  \<open>addChatMessageWithSource\<close> is in memory but not in the stored item. And on a page
  without the chat container, \<open>handleVoiceTranscript\<close> pushes its entry onto a
  transcript of 30 entries and stores all 31, since the cut to 30 is made only inside
  \<open>addChatMessageWithSource\<close>, which returns at once there.
\<close>

theorem stored_transcript_not_capped:
  "chatHistory (addChatMessageWithSource 1000 ''Hallo'' ''user'' ''chat'' fullStoragePage)
     = Some [chatEntry 1000 ''Hallo'' ''user'' ''chat'']
   \<and> getItem ''chatHistory_s1'' (addChatMessageWithSource 1000 ''Hallo'' ''user'' ''chat'' fullStoragePage)
     = None
   \<and> getItem ''chatHistory_s1'' (handleVoiceTranscript 1000 helloVoice noContainerPage)
     = Some (fullTranscript @ [voiceEntry 1000 helloVoice])
   \<and> length (fullTranscript @ [voiceEntry 1000 helloVoice]) = 31"
proof -
  have a: "chatHistory (addChatMessageWithSource 1000 ''Hallo'' ''user'' ''chat'' fullStoragePage)
     = Some [chatEntry 1000 ''Hallo'' ''user'' ''chat'']
   \<and> getItem ''chatHistory_s1'' (addChatMessageWithSource 1000 ''Hallo'' ''user'' ''chat'' fullStoragePage)
     = None"
    by (simp add: fullStoragePage_def emptyTranscriptPage_def examplePage_def
        addChatMessageWithSource_def saveChatHistoryToStorage_def updateConversationContext_def
        getItem_def chatEntry_def Let_def)
  have n: "chatFunctionsLoaded noContainerPage" "\<not> chatMessagesPresent noContainerPage"
    "\<not> storageFull noContainerPage" "processedTranscripts noContainerPage = []"
    "chatHistory noContainerPage = Some fullTranscript"
    "storageKey noContainerPage = ''chatHistory_s1''"
    by (simp_all add: noContainerPage_def fullPage_def examplePage_def storageKey_def orElse_def)
  have "getItem (storageKey noContainerPage) (handleVoiceTranscript 1000 helloVoice noContainerPage)
          = Some (currentHistory 1000 noContainerPage @ [voiceEntry 1000 helloVoice])"
    using helloVoice_fresh [OF n(4)] n(1,2,3)
    by (intro voice_without_container(2)) (simp_all add: helloVoice_facts trim_hello)
  then have b: "getItem ''chatHistory_s1'' (handleVoiceTranscript 1000 helloVoice noContainerPage)
     = Some (fullTranscript @ [voiceEntry 1000 helloVoice])"
    by (simp add: n)
  show ?thesis using a b by (simp add: fullTranscript_def)
qed

lemma exampleOps_pushed:
  "pushedAll exampleOps fullPage
     = [chatEntry 1000 ''Guten Tag'' ''assistant'' ''chat'', voiceEntry 2000 helloVoice,
        chatEntry 2000 ''Hallo'' ''user'' ''voice'']"
proof -
  let ?c1 = "addChatMessageWithSource 1000 ''Guten Tag'' ''assistant'' ''chat'' fullPage"
  let ?c2 = "handleVoiceTranscript 2000 helloVoice ?c1"
  have f: "chatMessagesPresent fullPage" "chatFunctionsLoaded fullPage"
    "processedTranscripts fullPage = []"
    by (simp_all add: fullPage_def examplePage_def)
  have p1: "processedTranscripts ?c1 = []" by (simp add: add_processed f)
  have e1: "sameEnv fullPage ?c1" using f(1) by (rule add_present(3))
  have nd: "\<not> voiceDropped helloVoice ?c1" using p1 by (rule helloVoice_fresh)
  have p2: "processedTranscripts ?c2 = [''user-Hallo'']"
    using voice_processed [OF nd, of 2000] by (simp add: p1 setAdd_def helloVoice_facts)
  have d: "voiceDropped helloVoice ?c2"
    by (simp add: voiceDropped_def p2 recentlyProcessed_def helloVoice_facts trim_hello)
  show ?thesis using nd d by (simp add: exampleOps_def helloVoice_facts trim_hello)
qed

text \<open>An instance: a history of 30 entries, then a chat message, a voice transcript and its repetition: the three oldest entries are dropped.\<close>

theorem transcript_capped_witness:
  "chatReady fullPage \<and> chatHistory fullPage = Some fullTranscript
   \<and> pushedAll exampleOps fullPage \<noteq> []
   \<and> chatHistory (applyOps exampleOps fullPage)
       = Some (replicate 27 (chatEntry 0 ''alt'' ''user'' ''chat'')
               @ [chatEntry 1000 ''Guten Tag'' ''assistant'' ''chat'', voiceEntry 2000 helloVoice,
                  chatEntry 2000 ''Hallo'' ''user'' ''voice''])
   \<and> getItem ''chatHistory_s1'' (applyOps exampleOps fullPage)
       = Some (replicate 27 (chatEntry 0 ''alt'' ''user'' ''chat'')
               @ [chatEntry 1000 ''Guten Tag'' ''assistant'' ''chat'', voiceEntry 2000 helloVoice,
                  chatEntry 2000 ''Hallo'' ''user'' ''voice''])"
proof -
  have r: "chatReady fullPage" "chatHistory fullPage = Some fullTranscript"
    "storageKey fullPage = ''chatHistory_s1''"
    by (simp_all add: chatReady_def fullPage_def examplePage_def storageKey_def orElse_def)
  have s: "sliceLast 30 (fullTranscript @ pushedAll exampleOps fullPage)
      = replicate 27 (chatEntry 0 ''alt'' ''user'' ''chat'')
               @ [chatEntry 1000 ''Guten Tag'' ''assistant'' ''chat'', voiceEntry 2000 helloVoice,
                  chatEntry 2000 ''Hallo'' ''user'' ''voice'']"
    by (simp add: exampleOps_pushed sliceLast_def fullTranscript_def)
  show ?thesis
    using transcript_capped [OF r(1,2), of exampleOps] r s by (simp add: exampleOps_pushed)
qed

subsection \<open>The fallback transcript\<close>

text \<open>
  Rounding to a double keeps the sign and stays within the range of the doubles, so the
  sign of the comparator orders two keys as their numbers do.
\<close>

lemmas parse_defs = parseInt_def parsePrefix_def digitValue_def digitsValue_def isWhiteSpace_def
  Let_def roundToDouble_def

lemma bitLength_lower: "0 < n \<Longrightarrow> 2 ^ (bitLength n - 1) \<le> n"
proof (induction n rule: bitLength.induct)
  case (1 n)
  show ?case
  proof (cases "n div 2 = 0")
    case True
    then show ?thesis using "1.prems" by (simp add: bitLength.simps [of n] bitLength.simps [of 0])
  next
    case False
    then have ih: "2 ^ (bitLength (n div 2) - 1) \<le> n div 2" using "1.IH" "1.prems" by simp
    have pos: "0 < bitLength (n div 2)" using False by (simp add: bitLength.simps [of "n div 2"])
    then have "(2::nat) ^ bitLength (n div 2) = 2 * 2 ^ (bitLength (n div 2) - 1)"
      by (cases "bitLength (n div 2)") simp_all
    also have "\<dots> \<le> 2 * (n div 2)" using ih by simp
    also have "\<dots> \<le> n" by simp
    finally show ?thesis using "1.prems" by (simp add: bitLength.simps [of n])
  qed
qed

lemma rounded_positive:
  assumes "2 ^ 53 \<le> (m::nat)"
  shows "0 < (if 2 * (m mod 2 ^ (bitLength m - 53)) > 2 ^ (bitLength m - 53)
                \<or> (2 * (m mod 2 ^ (bitLength m - 53)) = 2 ^ (bitLength m - 53)
                    \<and> odd (m div 2 ^ (bitLength m - 53)))
              then m div 2 ^ (bitLength m - 53) + 1 else m div 2 ^ (bitLength m - 53))
             * 2 ^ (bitLength m - 53)"
proof -
  have "(0::nat) < 2 ^ 53" by simp
  then have m: "0 < m" using assms by (rule less_le_trans)
  have "(2::nat) ^ (bitLength m - 53) \<le> 2 ^ (bitLength m - 1)"
    by (rule power_increasing) simp_all
  also have "\<dots> \<le> m" using m by (rule bitLength_lower)
  finally have "1 \<le> m div 2 ^ (bitLength m - 53)"
    by (simp add: Suc_le_eq div_greater_zero_iff)
  then show ?thesis by auto
qed

lemma roundToDouble_large:
  assumes "\<not> nat \<bar>d\<bar> < 2 ^ 53"
  shows "\<exists>v > 0. roundToDouble d =
           (if v \<ge> 2 ^ 1024 then (if d < 0 then MinusInfinity else PlusInfinity)
            else Num (if d < 0 then - int v else int v))"
proof -
  have big: "2 ^ 53 \<le> nat \<bar>d\<bar>" using assms by (simp only: not_less)
  show ?thesis
    unfolding roundToDouble_def Let_def if_not_P [OF assms]
    using rounded_positive [OF big] by blast
qed

lemma roundToDouble_sign: "comparatorSign (roundToDouble d) = sgn d"
proof (cases "nat \<bar>d\<bar> < 2 ^ 53")
  case True
  then show ?thesis by (simp only: roundToDouble_def Let_def if_True comparatorSign.simps)
next
  case False
  have "(0::nat) < 2 ^ 53" by simp
  moreover have "2 ^ 53 \<le> nat \<bar>d\<bar>" using False by (simp only: not_less)
  ultimately have "0 < nat \<bar>d\<bar>" by (rule less_le_trans)
  then have nz: "d \<noteq> 0" by auto
  obtain v :: nat where v: "0 < v"
    "roundToDouble d = (if v \<ge> 2 ^ 1024 then (if d < 0 then MinusInfinity else PlusInfinity)
            else Num (if d < 0 then - int v else int v))"
    using roundToDouble_large [OF False] by blast
  show ?thesis
    unfolding v(2) using v(1) nz by (simp add: sgn_if del: power_numeral)
qed

lemma abs_below: "nat \<bar>d\<bar> < B \<Longrightarrow> \<bar>d\<bar> < int B"
  by linarith

lemma signed_below: "v < B \<Longrightarrow> \<bar>if d < 0 then - int v else int v\<bar> < int B"
  by simp

lemma int_limit: "int (2 ^ 1024) = 2 ^ 1024"
  by (simp only: of_nat_power of_nat_numeral)

lemma roundToDouble_bound: "roundToDouble d = Num k \<Longrightarrow> \<bar>k\<bar> < 2 ^ 1024"
proof (cases "nat \<bar>d\<bar> < 2 ^ 53")
  case True
  assume "roundToDouble d = Num k"
  then have "k = d" using True by (simp only: roundToDouble_def Let_def if_True number.inject)
  moreover have "(2::nat) ^ 53 \<le> 2 ^ 1024" by (rule power_increasing) simp_all
  then have "nat \<bar>d\<bar> < 2 ^ 1024" using True by (rule less_le_trans [rotated])
  then have "\<bar>d\<bar> < int (2 ^ 1024)" by (rule abs_below)
  ultimately show ?thesis by (simp only: int_limit)
next
  case False
  assume r: "roundToDouble d = Num k"
  obtain v :: nat where v: "0 < v"
    "roundToDouble d = (if v \<ge> 2 ^ 1024 then (if d < 0 then MinusInfinity else PlusInfinity)
            else Num (if d < 0 then - int v else int v))"
    using roundToDouble_large [OF False] by blast
  have lt: "v < 2 ^ 1024"
  proof (rule ccontr)
    assume "\<not> v < 2 ^ 1024"
    then have "2 ^ 1024 \<le> v" by (simp only: not_less)
    then have "roundToDouble d = (if d < 0 then MinusInfinity else PlusInfinity)"
      by (simp only: v(2) if_True)
    then show False using r by (simp only: split: if_splits) simp_all
  qed
  then have "\<not> 2 ^ 1024 \<le> v" by (simp only: not_le)
  then have "roundToDouble d = Num (if d < 0 then - int v else int v)"
    by (simp only: v(2) if_False)
  then have "k = (if d < 0 then - int v else int v)" using r by (simp only: number.inject)
  moreover have "\<bar>if d < 0 then - int v else int v\<bar> < int (2 ^ 1024)"
    using lt by (rule signed_below)
  ultimately show ?thesis by (simp only: int_limit)
qed

lemma parseInt_proper: "parseInt s \<noteq> NaN \<Longrightarrow> properDouble (parseInt s)"
proof -
  assume n: "parseInt s \<noteq> NaN"
  obtain d where d: "parseInt s = roundToDouble d"
    using n by (auto simp: parseInt_def split: prod.splits if_splits)
  show ?thesis
  proof (cases "roundToDouble d")
    case (Num k)
    then show ?thesis using roundToDouble_bound [of d k] d by (simp only: properDouble_def number.case)
  qed (use n d in \<open>simp_all add: properDouble_def\<close>)
qed

lemma rank_limits:
  fixes a L :: int
  assumes "\<bar>a\<bar> < L"
  shows "\<not> L \<le> a" "- L \<le> a" "- L \<le> L" "\<not> a \<le> - L" "a \<le> L" "\<not> L \<le> - L"
  using assms by linarith+

lemma compare_rank:
  assumes "properDouble x" "properDouble y"
  shows "(comparatorSign (subtract y x) \<le> 0) = (rank y \<le> rank x)"
proof (cases x)
  case NaN
  then show ?thesis using assms by (simp only: properDouble_def number.case)
next
  case x: (Num a)
  then have a: "\<bar>a\<bar> < 2 ^ 1024" using assms(1) by (simp only: properDouble_def number.case)
  show ?thesis
  proof (cases y)
    case NaN
    then show ?thesis using assms by (simp only: properDouble_def number.case)
  next
    case (Num b)
    then show ?thesis using x by (simp add: roundToDouble_sign sgn_if del: power_numeral)
  next
    case PlusInfinity
    then show ?thesis using x rank_limits [OF a] by (simp del: power_numeral)
  next
    case MinusInfinity
    then show ?thesis using x rank_limits [OF a] by (simp del: power_numeral)
  qed
next
  case x: PlusInfinity
  have p: "(0::int) < 2 ^ 1024" by (rule zero_less_power) simp
  show ?thesis
  proof (cases y)
    case NaN
    then show ?thesis using assms by (simp only: properDouble_def number.case)
  next
    case (Num b)
    then have "\<bar>b\<bar> < 2 ^ 1024" using assms(2) by (simp only: properDouble_def number.case)
    then show ?thesis using x Num rank_limits [of b "2 ^ 1024"] by (simp del: power_numeral)
  next
    case PlusInfinity
    then show ?thesis using x by (simp del: power_numeral)
  next
    case MinusInfinity
    then show ?thesis using x rank_limits(3) [of 0 "2 ^ 1024"] p by (simp del: power_numeral)
  qed
next
  case x: MinusInfinity
  have p: "(0::int) < 2 ^ 1024" by (rule zero_less_power) simp
  show ?thesis
  proof (cases y)
    case NaN
    then show ?thesis using assms by (simp only: properDouble_def number.case)
  next
    case (Num b)
    then have "\<bar>b\<bar> < 2 ^ 1024" using assms(2) by (simp only: properDouble_def number.case)
    then show ?thesis using x Num rank_limits [of b "2 ^ 1024"] by (simp del: power_numeral)
  next
    case PlusInfinity
    then show ?thesis using x rank_limits(6) [of 0 "2 ^ 1024"] p by (simp del: power_numeral)
  next
    case MinusInfinity
    then show ?thesis using x by (simp del: power_numeral)
  qed
qed

lemma sortBy_Cons: "sortBy cmp (x # xs) = insertBy cmp x (sortBy cmp xs)"
  by (simp add: sortBy_def)

lemma sortBy_Nil [simp]: "sortBy cmp [] = []"
  by (simp add: sortBy_def)

lemma newestKey_None: "newestKey ks = None \<longleftrightarrow> ks = []"
  by (cases ks) (simp_all split: option.splits)

lemma newestKey_max:
  "newestKey ks = Some k \<Longrightarrow> k \<in> set ks \<and> (\<forall>k' \<in> set ks. stampOf k' \<le> stampOf k)"
proof (induction ks arbitrary: k)
  case Nil
  then show ?case by simp
next
  case (Cons a ks)
  show ?case
  proof (cases "newestKey ks")
    case None
    then have "ks = []" by (simp add: newestKey_None)
    then show ?thesis using Cons.prems by simp
  next
    case (Some k')
    then have ih: "k' \<in> set ks" "\<forall>x \<in> set ks. stampOf x \<le> stampOf k'"
      using Cons.IH by auto
    show ?thesis
    proof (cases "stampOf k' \<le> stampOf a")
      case True
      then have "k = a" using Cons.prems Some by simp
      then show ?thesis using ih True by auto
    next
      case False
      then have "k = k'" using Cons.prems Some by simp
      then show ?thesis using ih False by auto
    qed
  qed
qed

lemma compareKeys_numeric:
  "parseInt (stampField a) \<noteq> NaN \<Longrightarrow> parseInt (stampField b) \<noteq> NaN \<Longrightarrow>
   (comparatorSign (compareKeys a b) \<le> 0) = (stampOf b \<le> stampOf a)"
  using compare_rank [OF parseInt_proper parseInt_proper, of "stampField a" "stampField b"]
  by (simp add: compareKeys_def stampOf_def Let_def)

lemma sortBy_head:
  "\<forall>k \<in> set ks. parseInt (stampField k) \<noteq> NaN \<Longrightarrow>
   (case sortBy compareKeys ks of [] \<Rightarrow> None | k # _ \<Rightarrow> Some k) = newestKey ks"
proof (induction ks)
  case Nil
  then show ?case by simp
next
  case (Cons a ks)
  then have ih: "(case sortBy compareKeys ks of [] \<Rightarrow> None | k # _ \<Rightarrow> Some k) = newestKey ks"
    by simp
  show ?case
  proof (cases "sortBy compareKeys ks")
    case Nil
    then show ?thesis using ih by (simp add: sortBy_Cons)
  next
    case (Cons k rest)
    then have nk: "newestKey ks = Some k" using ih by simp
    then have "k \<in> set ks" using newestKey_max by blast
    then have "(comparatorSign (compareKeys a k) \<le> 0) = (stampOf k \<le> stampOf a)"
      using Cons.prems by (intro compareKeys_numeric) auto
    then show ?thesis using Cons nk by (simp add: sortBy_Cons)
  qed
qed

text \<open>
  When every field is a number of at most 20 significant digits, the order of the keys
  is fixed by the comparator.
\<close>

lemma engine_not_asked:
  "\<forall>k \<in> set ks. parseInt (stampField k) \<noteq> NaN \<and> \<not> manyDigits (stampField k) \<Longrightarrow>
   \<not> engineDecides ks"
  by (simp add: engineDecides_def list_ex_iff)

lemma getItem_key: "k \<in> fst ` set (localStorage c) \<Longrightarrow> \<exists>h. getItem k c = Some h"
  by (cases "map_of (localStorage c) k") (auto simp: getItem_def map_of_eq_None_iff)

text \<open>
  Claim C6, amended. On load, when no item exists under the key of the current session,
  at least one \<open>chatHistory_\<close> item exists, the second \<open>_\<close>-separated field of every
  such key starts with a number of at most 20 significant decimal digits, and the copy
  under the current key does not fail, the transcript adopted is the one stored under the
  first key among those whose number, as the double \<open>parseInt\<close> returns, is greatest.
  The times at which the items were written play no part.
\<close>

theorem fallback_is_newest_session_key:
  assumes "getItem (storageKey c) c = None"
    and "chatHistoryKeys c \<noteq> []"
    and "\<forall>k \<in> set (chatHistoryKeys c).
           parseInt (stampField k) \<noteq> NaN \<and> \<not> manyDigits (stampField k)"
    and "\<not> storageFull c \<or> \<not> truthy (BROWSER_SESSION_ID c)"
  shows "\<exists>k h. newestKey (chatHistoryKeys c) = Some k \<and> k \<in> set (chatHistoryKeys c)
           \<and> (\<forall>k' \<in> set (chatHistoryKeys c). stampOf k' \<le> stampOf k)
           \<and> getItem k c = Some h
           \<and> fst (loadChatHistoryFromStorage now c) = h"
proof -
  obtain k where nk: "newestKey (chatHistoryKeys c) = Some k"
    using assms(2) newestKey_None [of "chatHistoryKeys c"] by (cases "newestKey (chatHistoryKeys c)") auto
  have mx: "k \<in> set (chatHistoryKeys c)" "\<forall>k' \<in> set (chatHistoryKeys c). stampOf k' \<le> stampOf k"
    using newestKey_max [OF nk] by auto
  then have "k \<in> fst ` set (localStorage c)" by (auto simp: chatHistoryKeys_def)
  then obtain h where h: "getItem k c = Some h" using getItem_key by blast
  have num: "\<forall>k \<in> set (chatHistoryKeys c). parseInt (stampField k) \<noteq> NaN"
    using assms(3) by simp
  obtain rest where srt: "sortBy compareKeys (chatHistoryKeys c) = k # rest"
    using sortBy_head [OF num] nk by (cases "sortBy compareKeys (chatHistoryKeys c)") auto
  have eng: "\<not> engineDecides (chatHistoryKeys c)"
    using assms(3) by (rule engine_not_asked)
  have "fst (loadChatHistoryFromStorage now c) = h"
    using assms(1,4) srt h eng
    by (auto simp: loadChatHistoryFromStorage_def Let_def chatHistoryKeys_def [symmetric])
  then show ?thesis using nk mx h by blast
qed

lemma tabStorage_eq:
  "tabStorage =
     [(''chatHistory_200_b'', 1000, [chatEntry 1000 ''aus Sitzung B'' ''user'' ''chat'']),
      (''chatHistory_100_a'', 2000, [chatEntry 2000 ''aus Sitzung A'' ''user'' ''chat''])]"
  by (simp add: tabStorage_def emptyTranscriptPage_def examplePage_def addChatMessageWithSource_def
      saveChatHistoryToStorage_def updateConversationContext_def storageKey_def orElse_def
      chatEntry_def Let_def sliceLast_def)

lemma stamps:
  "parseInt (stampField ''chatHistory_200_b'') = Num 200"
  "parseInt (stampField ''chatHistory_100_a'') = Num 100"
  "\<not> manyDigits (stampField ''chatHistory_200_b'')"
  "\<not> manyDigits (stampField ''chatHistory_100_a'')"
  by (simp_all add: stampField_def manyDigits_def parse_defs)

lemma tab_keys_compared:
  "\<not> engineDecides [''chatHistory_200_b'', ''chatHistory_100_a'']"
  "sortBy compareKeys [''chatHistory_200_b'', ''chatHistory_100_a'']
     = [''chatHistory_200_b'', ''chatHistory_100_a'']"
  by (simp_all add: engineDecides_def sortBy_def compareKeys_def stamps roundToDouble_def)

text \<open>
  Claim C6, as stated, fails. The new tab has no item of its own; the item written last
  (at time 2000) is the one of session \<open>100_a\<close>, but the transcript adopted is the one
  of session \<open>200_b\<close>, written at time 1000, whose key carries the greater number.
\<close>

theorem fallback_not_most_recently_written:
  "getItem (storageKey newTab) newTab = None
   \<and> mostRecentlyWritten newTab = Some [chatEntry 2000 ''aus Sitzung A'' ''user'' ''chat'']
   \<and> fst (loadChatHistoryFromStorage 3000 newTab) = [chatEntry 1000 ''aus Sitzung B'' ''user'' ''chat'']"
  by (simp add: newTab_def tabStorage_eq examplePage_def getItem_def storageKey_def orElse_def
      mostRecentlyWritten_def startsWith_def loadChatHistoryFromStorage_def Let_def
      tab_keys_compared truthy_def chatEntry_def)

text \<open>An instance: the new tab on the storage of the two older sessions.\<close>

theorem fallback_is_newest_session_key_witness:
  "getItem (storageKey newTab) newTab = None
   \<and> chatHistoryKeys newTab = [''chatHistory_200_b'', ''chatHistory_100_a'']
   \<and> parseInt (stampField ''chatHistory_200_b'') = Num 200
   \<and> parseInt (stampField ''chatHistory_100_a'') = Num 100
   \<and> \<not> manyDigits (stampField ''chatHistory_200_b'')
   \<and> \<not> manyDigits (stampField ''chatHistory_100_a'')
   \<and> \<not> storageFull newTab
   \<and> newestKey (chatHistoryKeys newTab) = Some ''chatHistory_200_b''
   \<and> fst (loadChatHistoryFromStorage 3000 newTab) = [chatEntry 1000 ''aus Sitzung B'' ''user'' ''chat'']"
proof -
  have k: "chatHistoryKeys newTab = [''chatHistory_200_b'', ''chatHistory_100_a'']"
    by (simp add: chatHistoryKeys_def newTab_def tabStorage_eq startsWith_def)
  have g: "getItem (storageKey newTab) newTab = None" "\<not> storageFull newTab"
    "getItem ''chatHistory_200_b'' newTab = Some [chatEntry 1000 ''aus Sitzung B'' ''user'' ''chat'']"
    by (simp_all add: newTab_def tabStorage_eq examplePage_def getItem_def storageKey_def orElse_def)
  have n: "newestKey (chatHistoryKeys newTab) = Some ''chatHistory_200_b''"
    by (simp add: k stampOf_def stamps)
  show ?thesis
    using fallback_is_newest_session_key [of newTab 3000] k g n by (auto simp: stamps)
qed

text \<open>
  Numbers are compared as doubles: two keys whose numbers differ only beyond 53 bits
  carry the same double, the comparator returns 0, and the first of them is adopted.
\<close>

lemma large_stamps:
  "parseInt (stampField ''chatHistory_9007199254740992_b'') = Num 9007199254740992"
  "parseInt (stampField ''chatHistory_9007199254740993_a'') = Num 9007199254740992"
  "\<not> manyDigits (stampField ''chatHistory_9007199254740992_b'')"
  "\<not> manyDigits (stampField ''chatHistory_9007199254740993_a'')"
  by (simp_all add: stampField_def manyDigits_def parse_defs bitLength.simps)

lemma stamps_beyond_53_bits_tie:
  "stampOf ''chatHistory_9007199254740993_a'' = stampOf ''chatHistory_9007199254740992_b''
   \<and> compareKeys ''chatHistory_9007199254740992_b'' ''chatHistory_9007199254740993_a'' = Num 0
   \<and> newestKey (chatHistoryKeys largeStampTab) = Some ''chatHistory_9007199254740992_b''
   \<and> fst (loadChatHistoryFromStorage 3000 largeStampTab)
       = [chatEntry 1000 ''aus Sitzung B'' ''user'' ''chat'']"
  by (simp add: stampOf_def compareKeys_def large_stamps roundToDouble_def chatHistoryKeys_def
      largeStampTab_def largeStampStorage_def examplePage_def startsWith_def getItem_def
      storageKey_def orElse_def loadChatHistoryFromStorage_def Let_def engineDecides_def
      sortBy_def truthy_def)

text \<open>
  With session ids of the shape \<open>generateSessionId\<close> produces, the field the comparator
  reads is the word \<open>session\<close>: \<open>parseInt\<close> gives \<open>NaN\<close>, and so does the comparator,
  which \<open>sort\<close> takes as 0.
\<close>

lemma session_prefixed_key_has_no_stamp:
  "parseInt (stampField ''chatHistory_session_1700000000000_k3j2x9a1b'') = NaN
   \<and> compareKeys ''chatHistory_session_1700000000000_k3j2x9a1b''
         ''chatHistory_session_1800000000000_p0o9i8u7y'' = NaN
   \<and> comparatorSign (compareKeys ''chatHistory_session_1700000000000_k3j2x9a1b''
         ''chatHistory_session_1800000000000_p0o9i8u7y'') = 0"
  by (simp add: compareKeys_def stampField_def parse_defs)

text \<open>
  Such a key among keys with different numbers makes the comparator inconsistent, and the
  order is the engine's; keys of that shape alone all compare equal and keep their order.
\<close>

lemma keys_without_number_left_to_engine:
  "engineDecides [''chatHistory_200_b'', ''chatHistory_session_1700000000000_k3j2x9a1b'',
                  ''chatHistory_300_c'']
   \<and> \<not> engineDecides [''chatHistory_session_1700000000000_k3j2x9a1b'',
                        ''chatHistory_session_1800000000000_p0o9i8u7y'']"
  by (simp add: engineDecides_def compareKeys_def stampField_def manyDigits_def parse_defs)

subsection \<open>The window of the duplicate test\<close>

text \<open>
  Once the timer of \<open>handleVoiceTranscript\<close> has deleted the key (10 s after the first
  delivery), the same transcript is accepted again.
\<close>

lemma repeat_after_expiry_appended:
  "chatHistory
     (handleVoiceTranscript 12000 helloVoice
        (expireProcessedTranscript ''user-Hallo''
           (handleVoiceTranscript 1000 helloVoice emptyTranscriptPage)))
   = Some [voiceEntry 1000 helloVoice, chatEntry 1000 ''Hallo'' ''user'' ''voice'',
           voiceEntry 12000 helloVoice, chatEntry 12000 ''Hallo'' ''user'' ''voice'']"
proof -
  let ?c1 = "handleVoiceTranscript 1000 helloVoice emptyTranscriptPage"
  let ?c2 = "expireProcessedTranscript ''user-Hallo'' ?c1"
  have e: "chatFunctionsLoaded emptyTranscriptPage" "chatMessagesPresent emptyTranscriptPage"
      "chatHistory emptyTranscriptPage = Some []" "processedTranscripts emptyTranscriptPage = []"
    by (simp_all add: emptyTranscriptPage_def examplePage_def)
  have nd: "\<not> voiceDropped helloVoice emptyTranscriptPage" using e(4) by (rule helloVoice_fresh)
  have t: "trim (transcript helloVoice) \<noteq> []" by (simp add: helloVoice_facts trim_hello)
  have h1: "chatHistory ?c1 = Some [voiceEntry 1000 helloVoice, chatEntry 1000 ''Hallo'' ''user'' ''voice'']"
    using voice_appends_two(1) [OF nd t e(2,1), of 1000]
    by (simp add: e sliceLast_def helloVoice_facts)
  have env: "sameEnv emptyTranscriptPage ?c1" using nd t e(2,1) by (rule voice_appends_two(3))
  have p1: "processedTranscripts ?c1 = [''user-Hallo'']"
    using voice_appends_two(4) [OF nd t e(2,1), of 1000] by (simp add: e setAdd_def helloVoice_facts)
  have c2: "processedTranscripts ?c2 = []" "chatHistory ?c2 = chatHistory ?c1"
    "chatMessagesPresent ?c2" "chatFunctionsLoaded ?c2"
    using env e(1,2) by (simp_all add: expireProcessedTranscript_def p1 sameEnv_fields)
  have nd2: "\<not> voiceDropped helloVoice ?c2" using c2(1) by (rule helloVoice_fresh)
  show ?thesis
    using voice_appends_two(1) [OF nd2 t c2(3,4), of 12000]
    by (simp add: c2(2) h1 sliceLast_def helloVoice_facts)
qed

text \<open>
  A transcript with a hyphen: \<open>id.split('-', 2)\<close> cuts the stored key \<open>user-E-Mail\<close>
  into \<open>user\<close> and \<open>E\<close>, so the duplicate test does not recognise the key of the very
  same transcript.
\<close>

lemma hyphen_defeats_duplicate_test:
  "voiceKey \<lparr>vrole = ''user'', transcript = ''E-Mail'', vsessionId = []\<rparr> = ''user-E-Mail''
   \<and> \<not> recentlyProcessed \<lparr>vrole = ''user'', transcript = ''E-Mail'', vsessionId = []\<rparr>
         [''user-E-Mail'']"
  by (simp add: voiceKey_def recentlyProcessed_def trim_def isWhiteSpace_def)

end
